theory Spec2Isabelle
  imports Main
begin

section \<open>Host strings and numbers\<close>

text \<open>
  The program is the TypeScript class \<open>OptimizedDatabaseV1\<close> of
  \<^verbatim>\<open>src/scripts/data/data-hive-v1.ts\<close>, a key-value store on top of the host's dynamic
  properties (\<open>world.getDynamicProperty\<close>, \<open>world.setDynamicProperty\<close>). Line numbers
  below are those of that file.

  A host string is a \<open>string\<close>: one \<open>char\<close> stands for one UTF-16 code unit, so
  \<open>length\<close> is the source's \<open>.length\<close> (the model covers code units below 256).
\<close>

text \<open>Number to decimal text: \<open>chunkCount.toString()\<close> and \<open>${i}\<close> in a template.\<close>

definition digit_char :: "nat \<Rightarrow> char" where
  "digit_char d = ''0123456789'' ! d"

fun toString :: "nat \<Rightarrow> string" where
  "toString n = (if n < 10 then [digit_char n] else toString (n div 10) @ [digit_char (n mod 10)])"

declare toString.simps [simp del]

text \<open>The regular expression \<open>/^\d+$/\<close>: one or more characters, all of them in 0..9.\<close>

definition is_digit :: "char \<Rightarrow> bool" where
  "is_digit c = (c \<in> set ''0123456789'')"

definition isDigits :: "string \<Rightarrow> bool" where
  "isDigits s = (s \<noteq> [] \<and> list_all is_digit s)"

text \<open>
  A host number is a double. The numbers of the class are counts and loop indices, so
  a number is modelled by the natural it stands for, and \<open>to_double\<close> rounds a natural
  to the nearest one that a double holds: 53 significant bits, a tie going to the even
  neighbour. Every natural up to \<open>2 ^ 53\<close> is held exactly; \<open>2 ^ 53 + 1\<close> is not, and
  rounds to \<open>2 ^ 53\<close>. The model has no largest double: where the host's number is
  \<open>Infinity\<close>, the model's is a natural above \<open>2 ^ 53\<close>, and the class only ever
  compares such a number with a loop index.
\<close>

fun bit_length :: "nat \<Rightarrow> nat" where
  "bit_length n = (if n = 0 then 0 else Suc (bit_length (n div 2)))"

declare bit_length.simps [simp del]

definition to_double :: "nat \<Rightarrow> nat" where
  "to_double n =
     (let e = bit_length n - 53; q = n div 2 ^ e; r = n mod 2 ^ e in
      if 2 ^ e < 2 * r \<or> (2 * r = 2 ^ e \<and> odd q) then (q + 1) * 2 ^ e else q * 2 ^ e)"

text \<open>
  \<open>parseInt(meta, 10)\<close>, called only on texts that passed \<open>isDigits\<close>: the double
  nearest to the number the digits write.
\<close>

definition digit_val :: "char \<Rightarrow> nat" where
  "digit_val c = of_char c - 48"

definition digits_value :: "string \<Rightarrow> nat" where
  "digits_value s = fold (\<lambda>c n. 10 * n + digit_val c) s 0"

definition parseInt :: "string \<Rightarrow> nat" where
  "parseInt s = to_double (digits_value s)"

text \<open>
  \<open>i++\<close> on a loop index: the double nearest to \<open>i + 1\<close>. At \<open>i = 2 ^ 53\<close> that is
  \<open>2 ^ 53\<close> again.
\<close>

definition increment :: "nat \<Rightarrow> nat" where
  "increment i = to_double (i + 1)"

text \<open>\<open>s.substring(a, b)\<close> for \<open>a \<le> b\<close>; both ends are clamped to the length.\<close>

definition substring :: "string \<Rightarrow> nat \<Rightarrow> nat \<Rightarrow> string" where
  "substring s a b = take (b - a) (drop a s)"

section \<open>JSON texts\<close>

text \<open>
  \<open>JSON.stringify\<close> and \<open>JSON.parse\<close> are built into the host. They are modelled on
  the values \<open>null\<close>, booleans, integers, strings and arrays. Objects, fractions,
  exponents and \<open>\u\<close> escapes of code units from 256 on are outside this fragment:
  \<open>JSON_parse\<close> answers \<open>SyntaxError\<close> on every text that is not a JSON text of the
  fragment. An integer prints as its plain decimal text, which is what the host prints
  for a double below \<open>10 ^ 21\<close>; an integer literal parses to the double nearest to it.
\<close>

datatype json = JNull | JBool bool | JNum int | JStr string | JArr "json list"

definition hex_char :: "nat \<Rightarrow> char" where
  "hex_char d = ''0123456789abcdef'' ! d"

definition quote_char :: "char \<Rightarrow> string" where
  "quote_char c =
     (if c = CHR 0x22 then [CHR 0x5C, CHR 0x22]
      else if c = CHR 0x5C then [CHR 0x5C, CHR 0x5C]
      else if c = CHR 0x08 then [CHR 0x5C, CHR ''b'']
      else if c = CHR 0x0C then [CHR 0x5C, CHR ''f'']
      else if c = CHR 0x0A then [CHR 0x5C, CHR ''n'']
      else if c = CHR 0x0D then [CHR 0x5C, CHR ''r'']
      else if c = CHR 0x09 then [CHR 0x5C, CHR ''t'']
      else if (of_char c :: nat) < 32
        then [CHR 0x5C, CHR ''u'', CHR ''0'', CHR ''0'',
              hex_char (of_char c div 16), hex_char (of_char c mod 16)]
      else [c])"

definition JSON_quote :: "string \<Rightarrow> string" where
  "JSON_quote s = CHR 0x22 # concat (map quote_char s) @ [CHR 0x22]"

fun join_comma :: "string list \<Rightarrow> string" where
  "join_comma [] = []"
| "join_comma [x] = x"
| "join_comma (x # y # ys) = x @ CHR '','' # join_comma (y # ys)"

fun JSON_stringify :: "json \<Rightarrow> string" where
  "JSON_stringify JNull = ''null''"
| "JSON_stringify (JBool b) = (if b then ''true'' else ''false'')"
| "JSON_stringify (JNum n) =
     (if n < 0 then CHR ''-'' # toString (nat (- n)) else toString (nat n))"
| "JSON_stringify (JStr s) = JSON_quote s"
| "JSON_stringify (JArr vs) = CHR ''['' # join_comma (map JSON_stringify vs) @ [CHR '']'']"

text \<open>
  \<open>JSON.parse\<close>: a lexer, then a parser that keeps the arrays still open on a stack,
  each with its elements so far in reverse.
\<close>

datatype token = TOpen | TClose | TComma | TAtom json

definition hex_val :: "char \<Rightarrow> nat option" where
  "hex_val c =
     (if is_digit c then Some (digit_val c)
      else if c \<in> set ''abcdef'' then Some (of_char c - 87)
      else if c \<in> set ''ABCDEF'' then Some (of_char c - 55)
      else None)"

definition simple_escape :: "char \<Rightarrow> char option" where
  "simple_escape e =
     (if e = CHR 0x22 then Some (CHR 0x22)
      else if e = CHR 0x5C then Some (CHR 0x5C)
      else if e = CHR ''/'' then Some (CHR ''/'')
      else if e = CHR ''b'' then Some (CHR 0x08)
      else if e = CHR ''f'' then Some (CHR 0x0C)
      else if e = CHR ''n'' then Some (CHR 0x0A)
      else if e = CHR ''r'' then Some (CHR 0x0D)
      else if e = CHR ''t'' then Some (CHR 0x09)
      else None)"

definition unicode_escape :: "char \<Rightarrow> char \<Rightarrow> char \<Rightarrow> char \<Rightarrow> char option" where
  "unicode_escape a b c d =
     (case (hex_val a, hex_val b, hex_val c, hex_val d) of
        (Some 0, Some 0, Some h, Some l) \<Rightarrow> Some (char_of (16 * h + l))
      | _ \<Rightarrow> None)"

text \<open>The body of a string literal, after its opening quote: the content and the rest.\<close>

fun string_body :: "string \<Rightarrow> (string \<times> string) option" where
  "string_body [] = None"
| "string_body (c # cs) =
     (if c = CHR 0x22 then Some ([], cs)
      else if c = CHR 0x5C then
        (case cs of
           [] \<Rightarrow> None
         | e # r \<Rightarrow>
             (if e = CHR ''u'' then
                (case r of
                   a # b # c' # d # r' \<Rightarrow>
                     (case unicode_escape a b c' d of
                        None \<Rightarrow> None
                      | Some x \<Rightarrow> map_option (\<lambda>(s, t). (x # s, t)) (string_body r'))
                 | _ \<Rightarrow> None)
              else
                (case simple_escape e of
                   None \<Rightarrow> None
                 | Some x \<Rightarrow> map_option (\<lambda>(s, t). (x # s, t)) (string_body r))))
      else if (of_char c :: nat) < 32 then None
      else map_option (\<lambda>(s, t). (c # s, t)) (string_body cs))"

text \<open>An integer literal without its sign: \<open>0\<close>, or digits that do not start with 0.\<close>

definition number_body :: "string \<Rightarrow> (nat \<times> string) option" where
  "number_body s =
     (let ds = takeWhile is_digit s; r = dropWhile is_digit s in
      if ds = [] \<or> (hd ds = CHR ''0'' \<and> length ds > 1) then None
      else if r \<noteq> [] \<and> hd r \<in> set ''.eE'' then None
      else Some (parseInt ds, r))"

definition is_ws :: "char \<Rightarrow> bool" where
  "is_ws c = (c \<in> set [CHR 0x20, CHR 0x09, CHR 0x0A, CHR 0x0D])"

definition literal :: "string \<Rightarrow> string \<Rightarrow> string option" where
  "literal l s = (if take (length l) s = l then Some (drop (length l) s) else None)"

lemma string_body_length: "string_body s = Some (x, r) \<Longrightarrow> length r < length s"
proof (induction s arbitrary: x r rule: string_body.induct)
  case 1
  then show ?case by simp
next
  case (2 c cs)
  then show ?case
    by (fastforce split: if_splits list.splits option.splits)
qed

lemma number_body_length: "number_body s = Some (n, r) \<Longrightarrow> length r < length s"
proof -
  assume a: "number_body s = Some (n, r)"
  then have r: "r = dropWhile is_digit s" and ne: "takeWhile is_digit s \<noteq> []"
    by (auto simp: number_body_def Let_def split: if_splits)
  have "length (takeWhile is_digit s) + length (dropWhile is_digit s) = length s"
    by (metis length_append takeWhile_dropWhile_id)
  with ne r show ?thesis by (cases "takeWhile is_digit s") auto
qed

lemma literal_length: "literal l s = Some r \<Longrightarrow> l \<noteq> [] \<Longrightarrow> length r < length s"
  by (cases s) (auto simp: literal_def split: if_splits)

function tokenize :: "string \<Rightarrow> token list option" where
  "tokenize [] = Some []"
| "tokenize (c # cs) =
     (if is_ws c then tokenize cs
      else if c = CHR ''['' then map_option ((#) TOpen) (tokenize cs)
      else if c = CHR '']'' then map_option ((#) TClose) (tokenize cs)
      else if c = CHR '','' then map_option ((#) TComma) (tokenize cs)
      else if c = CHR 0x22 then
        (case string_body cs of
           None \<Rightarrow> None
         | Some (x, r) \<Rightarrow> map_option ((#) (TAtom (JStr x))) (tokenize r))
      else if c = CHR ''-'' then
        (case number_body cs of
           None \<Rightarrow> None
         | Some (n, r) \<Rightarrow> map_option ((#) (TAtom (JNum (- int n)))) (tokenize r))
      else if is_digit c then
        (case number_body (c # cs) of
           None \<Rightarrow> None
         | Some (n, r) \<Rightarrow> map_option ((#) (TAtom (JNum (int n)))) (tokenize r))
      else if c = CHR ''n'' then
        (case literal ''ull'' cs of
           None \<Rightarrow> None
         | Some r \<Rightarrow> map_option ((#) (TAtom JNull)) (tokenize r))
      else if c = CHR ''t'' then
        (case literal ''rue'' cs of
           None \<Rightarrow> None
         | Some r \<Rightarrow> map_option ((#) (TAtom (JBool True))) (tokenize r))
      else if c = CHR ''f'' then
        (case literal ''alse'' cs of
           None \<Rightarrow> None
         | Some r \<Rightarrow> map_option ((#) (TAtom (JBool False))) (tokenize r))
      else None)"
  by pat_completeness auto
termination
  apply (relation "measure length")
  apply simp_all
  apply (auto dest: string_body_length number_body_length literal_length)
  done

datatype pstate =
    WantVal "json list list"
  | WantValOrClose "json list list"
  | AfterVal "json list list"
  | Done json

fun push_value :: "json \<Rightarrow> json list list \<Rightarrow> pstate" where
  "push_value v [] = Done v"
| "push_value v (fr # st) = AfterVal ((v # fr) # st)"

fun pstep :: "pstate \<Rightarrow> token \<Rightarrow> pstate option" where
  "pstep (WantVal st) (TAtom v) = Some (push_value v st)"
| "pstep (WantVal st) TOpen = Some (WantValOrClose ([] # st))"
| "pstep (WantValOrClose st) (TAtom v) = Some (push_value v st)"
| "pstep (WantValOrClose st) TOpen = Some (WantValOrClose ([] # st))"
| "pstep (WantValOrClose (fr # st)) TClose = Some (push_value (JArr (rev fr)) st)"
| "pstep (AfterVal st) TComma = Some (WantVal st)"
| "pstep (AfterVal (fr # st)) TClose = Some (push_value (JArr (rev fr)) st)"
| "pstep _ _ = None"

fun prun :: "pstate \<Rightarrow> token list \<Rightarrow> pstate option" where
  "prun p [] = Some p"
| "prun p (t # ts) = (case pstep p t of None \<Rightarrow> None | Some p' \<Rightarrow> prun p' ts)"

text \<open>
  What a call ends in when it does not return a value. The first four are thrown: the
  two errors of the constructor, the \<open>SyntaxError\<close> of \<open>JSON.parse\<close>, and the
  \<open>TypeError\<close> of a call on a value that has no such method. \<open>NeverReturns\<close> is not
  thrown: it stands for a call whose loop does not end.
\<close>

datatype error = EmptyName | InvalidNameChars | SyntaxError | TypeError | NeverReturns

definition JSON_parse :: "string \<Rightarrow> error + json" where
  "JSON_parse s =
     (case tokenize s of
        None \<Rightarrow> Inl SyntaxError
      | Some ts \<Rightarrow>
          (case prun (WantVal []) ts of
             Some (Done v) \<Rightarrow> Inr v
           | _ \<Rightarrow> Inl SyntaxError))"


section \<open>The database class\<close>

text \<open>
  The host's dynamic properties are a map from keys to texts (the class stores nothing
  but strings); \<open>setDynamicProperty(k, null)\<close> removes the entry. The host's limit on
  the size of one property is not modelled: every write succeeds. One instance of the
  class is modelled together with the \<open>world\<close> it reaches: the record holds the
  instance's three fields and the properties. A method returns a sum, \<open>Inl\<close> when the
  call does not return a value; the values handed to \<open>set\<close> are values of \<open>json\<close>, for
  which \<open>JSON.stringify\<close> returns a text.

  The field \<open>cachedPointers\<close> is declared \<open>string[] | null\<close>, and is assigned what
  \<open>JSON.parse\<close> returns, cast without a check: at run time it holds \<open>null\<close> (\<open>None\<close>)
  or any other value (\<open>Some\<close>).
\<close>

type_synonym world = "string \<rightharpoonup> string"

record database =
  name :: string
  pointerKey :: string
  cachedPointers :: "json option"
  world :: world

definition maxChunkSize :: nat where
  "maxChunkSize = 30000"

text \<open>\<open>!x\<close> for a property read as \<open>string | undefined\<close>: absent, or the empty text.\<close>

definition falsy :: "string option \<Rightarrow> bool" where
  "falsy m = (m = None \<or> m = Some [])"

text \<open>\<open>meta || ""\<close>.\<close>

definition or_empty :: "string option \<Rightarrow> string" where
  "or_empty m = (case m of None \<Rightarrow> [] | Some t \<Rightarrow> t)"

text \<open>
  The constructor (lines 20 to 34). Its two \<open>throw new Error(...)\<close> are \<open>EmptyName\<close>
  ("Database name cannot be empty.") and \<open>InvalidNameChars\<close> ("Database name cannot
  include the characters ...").
\<close>

definition constructor :: "string \<Rightarrow> world \<Rightarrow> error + database" where
  "constructor nm w =
     (if nm = [] then Inl EmptyName
      else if CHR 0x22 \<in> set nm \<or> CHR ''/'' \<in> set nm then Inl InvalidNameChars
      else
        let pk = nm @ ''/pointers'' in
        Inr \<lparr>name = nm, pointerKey = pk, cachedPointers = None,
             world = (if falsy (w pk) then w(pk \<mapsto> JSON_stringify (JArr [])) else w)\<rparr>)"

text \<open>
  \<open>_getPointers\<close> (lines 40 to 47): the cached value when it is not \<open>null\<close>; otherwise
  what the index entry parses to, or a new empty array, which is cached and returned.
  \<open>cached\<close> reads the field and \<open>to_cache\<close> is the assignment to it: the value \<open>null\<close>
  is the field's \<open>null\<close>.
\<close>

definition cached :: "database \<Rightarrow> json" where
  "cached s = (case cachedPointers s of None \<Rightarrow> JNull | Some v \<Rightarrow> v)"

definition to_cache :: "json \<Rightarrow> json option" where
  "to_cache v = (if v = JNull then None else Some v)"

definition getPointers :: "database \<Rightarrow> error + (json \<times> database)" where
  "getPointers s =
     (if cached s \<noteq> JNull then Inr (cached s, s)
      else if falsy (world s (pointerKey s))
      then Inr (JArr [], s\<lparr>cachedPointers := to_cache (JArr [])\<rparr>)
      else
        (case JSON_parse (or_empty (world s (pointerKey s))) of
           Inl e \<Rightarrow> Inl e
         | Inr v \<Rightarrow> Inr (v, s\<lparr>cachedPointers := to_cache v\<rparr>)))"

text \<open>\<open>_setPointers\<close> (lines 53 to 56).\<close>

definition setPointers :: "json \<Rightarrow> database \<Rightarrow> database" where
  "setPointers pointers s =
     s\<lparr>cachedPointers := to_cache pointers,
       world := (world s)(pointerKey s \<mapsto> JSON_stringify pointers)\<rparr>"

text \<open>
  The three methods the class calls on the value \<open>_getPointers\<close> returned. On an array
  they are those of \<open>Array\<close>: \<open>includes\<close> compares the elements with the entry key,
  which only an element that is this string equals; \<open>filter\<close> returns a new array;
  \<open>push\<close> adds the entry key at the end. A string has \<open>includes\<close> too, the test for a
  substring, and neither \<open>filter\<close> nor \<open>push\<close>. \<open>null\<close>, a boolean and a number have
  none of the three, and the call throws a \<open>TypeError\<close>.
\<close>

definition is_substring :: "string \<Rightarrow> string \<Rightarrow> bool" where
  "is_substring x t = list_ex (\<lambda>n. take (length x) (drop n t) = x) [0..<Suc (length t)]"

definition includes_key :: "json \<Rightarrow> string \<Rightarrow> error + bool" where
  "includes_key pointers dynamicKey =
     (case pointers of
        JArr vs \<Rightarrow> Inr (JStr dynamicKey \<in> set vs)
      | JStr t \<Rightarrow> Inr (is_substring dynamicKey t)
      | _ \<Rightarrow> Inl TypeError)"

definition filter_key :: "json \<Rightarrow> string \<Rightarrow> error + json" where
  "filter_key pointers dynamicKey =
     (case pointers of
        JArr vs \<Rightarrow> Inr (JArr (filter (\<lambda>ptr. ptr \<noteq> JStr dynamicKey) vs))
      | _ \<Rightarrow> Inl TypeError)"

definition push_key :: "json \<Rightarrow> string \<Rightarrow> error + json" where
  "push_key pointers dynamicKey =
     (case pointers of
        JArr vs \<Rightarrow> Inr (JArr (vs @ [JStr dynamicKey]))
      | _ \<Rightarrow> Inl TypeError)"

text \<open>The key of chunk \<open>i\<close>: \<open>`${dynamicKey}_part${i}`\<close>.\<close>

definition partKey :: "string \<Rightarrow> nat \<Rightarrow> string" where
  "partKey dynamicKey i = dynamicKey @ ''_part'' @ toString i"

text \<open>
  The loop \<open>for (let i = 0; i < chunkCount; i++)\<close> at lines 144 to 147 of \<open>delete\<close>, and
  again at lines 165 to 168 of \<open>clear\<close>, with the properties as they are when the index
  is \<open>i\<close>. The result \<open>None\<close> is a loop that does not end.
\<close>

partial_function (option) erase_parts :: "string \<Rightarrow> nat \<Rightarrow> nat \<Rightarrow> world \<Rightarrow> world option" where
  "erase_parts dynamicKey chunkCount i w =
     (if i < chunkCount
      then erase_parts dynamicKey chunkCount (increment i) (w(partKey dynamicKey i := None))
      else Some w)"

text \<open>
  Lines 143 to 149 of \<open>delete\<close>, which \<open>clear\<close> repeats at lines 163 to 170: when the
  entry holds a chunk count, remove that many parts; then remove the entry.
\<close>

definition erase_entry :: "string \<Rightarrow> world \<Rightarrow> error + world" where
  "erase_entry dynamicKey w =
     (let meta = w dynamicKey in
      case (if isDigits (or_empty meta)
            then erase_parts dynamicKey (parseInt (or_empty meta)) 0 w
            else Some w) of
        None \<Rightarrow> Inl NeverReturns
      | Some w1 \<Rightarrow> Inr (w1(dynamicKey := None)))"

text \<open>\<open>delete\<close> (lines 137 to 152).\<close>

definition delete :: "string \<Rightarrow> database \<Rightarrow> error + database" where
  "delete key s =
     (case getPointers s of
        Inl e \<Rightarrow> Inl e
      | Inr (pointers, s1) \<Rightarrow>
          let dynamicKey = name s1 @ ''/'' @ key in
          (case includes_key pointers dynamicKey of
             Inl e \<Rightarrow> Inl e
           | Inr present \<Rightarrow>
               if present then
                 (case erase_entry dynamicKey (world s1) of
                    Inl e \<Rightarrow> Inl e
                  | Inr w \<Rightarrow>
                      (case filter_key pointers dynamicKey of
                         Inl e \<Rightarrow> Inl e
                       | Inr filtered \<Rightarrow> Inr (setPointers filtered (s1\<lparr>world := w\<rparr>))))
               else Inr s1))"

text \<open>
  Lines 81 to 91 of \<open>set\<close>: \<open>Math.ceil(serialized.length / maxChunkSize)\<close> chunks; more
  than one chunk goes to the part keys and the count to the entry, one chunk goes to the
  entry itself. The count is at most the length of a host string, which is below
  \<open>2 ^ 53\<close>, so this loop ends and its index is exact.
\<close>

definition chunkCount_of :: "string \<Rightarrow> nat" where
  "chunkCount_of serialized = (length serialized + maxChunkSize - 1) div maxChunkSize"

definition write_entry :: "string \<Rightarrow> string \<Rightarrow> world \<Rightarrow> world" where
  "write_entry dynamicKey serialized w =
     (let chunkCount = chunkCount_of serialized in
      if chunkCount > 1
      then (fold (\<lambda>i w'. w'(partKey dynamicKey i \<mapsto>
                    substring serialized (i * maxChunkSize) ((i + 1) * maxChunkSize)))
              [0..<chunkCount] w)(dynamicKey \<mapsto> toString chunkCount)
      else w(dynamicKey \<mapsto> serialized))"

text \<open>
  \<open>set\<close> (lines 67 to 98). The local \<open>pointers\<close> is the value \<open>_getPointers\<close> returned at
  line 71. \<open>delete\<close> does not change that array: it caches and persists a new one, the
  result of \<open>filter\<close>. The test at line 93 therefore reads the list as it was before
  \<open>delete\<close>. On the other path the array is the cached one, \<open>push\<close> extends it in place and
  \<open>_setPointers\<close> persists it. (\<open>o_set\<close> below keeps the arrays in a store of objects and
  reads them where the source does; it is shown to agree with this definition.)
\<close>

definition set_value :: "string \<Rightarrow> json \<Rightarrow> database \<Rightarrow> error + (bool \<times> database)" where
  "set_value key v s =
     (let serialized = JSON_stringify v in
      case getPointers s of
        Inl e \<Rightarrow> Inl e
      | Inr (pointers, s1) \<Rightarrow>
          let dynamicKey = name s1 @ ''/'' @ key in
          (case includes_key pointers dynamicKey of
             Inl e \<Rightarrow> Inl e
           | Inr present \<Rightarrow>
               (case (if present
                      then map_sum id (Pair True) (delete key s1)
                      else Inr (False, s1)) of
                  Inl e \<Rightarrow> Inl e
                | Inr (dataExists, s2) \<Rightarrow>
                    let s3 = s2\<lparr>world := write_entry dynamicKey serialized (world s2)\<rparr> in
                    (case includes_key pointers dynamicKey of
                       Inl e \<Rightarrow> Inl e
                     | Inr still \<Rightarrow>
                         if \<not> still then
                           (case push_key pointers dynamicKey of
                              Inl e \<Rightarrow> Inl e
                            | Inr pushed \<Rightarrow> Inr (dataExists, setPointers pushed s3))
                         else Inr (dataExists, s3)))))"

text \<open>
  The loop at lines 119 to 122 of \<open>get\<close>, which adds part \<open>i\<close> to \<open>fullData\<close>; a part
  without an entry adds nothing. The result \<open>None\<close> is a loop that does not end.
\<close>

partial_function (option) read_parts ::
  "string \<Rightarrow> world \<Rightarrow> nat \<Rightarrow> nat \<Rightarrow> string \<Rightarrow> string option" where
  "read_parts dynamicKey w chunkCount i fullData =
     (if i < chunkCount
      then read_parts dynamicKey w chunkCount (increment i)
             (fullData @ or_empty (w (partKey dynamicKey i)))
      else Some fullData)"

text \<open>\<open>get\<close> (lines 110 to 127); the value \<open>None\<close> is \<open>undefined\<close>.\<close>

definition get :: "string \<Rightarrow> database \<Rightarrow> error + json option" where
  "get key s =
     (let dynamicKey = name s @ ''/'' @ key;
          meta = world s dynamicKey
      in
      if falsy meta then Inr None
      else if isDigits (or_empty meta) then
        (case read_parts dynamicKey (world s) (parseInt (or_empty meta)) 0 [] of
           None \<Rightarrow> Inl NeverReturns
         | Some fullData \<Rightarrow> map_sum id Some (JSON_parse fullData))
      else map_sum id Some (JSON_parse (or_empty meta)))"

text \<open>
  \<open>clear\<close> (lines 160 to 173). \<open>forEach\<close> is a method of arrays only. The host's
  functions take a string for the key of a property; an element of the array that is
  not a string is taken to be refused by the host with a \<open>TypeError\<close>.
\<close>

fun clear_each :: "json list \<Rightarrow> world \<Rightarrow> error + world" where
  "clear_each [] w = Inr w"
| "clear_each (JStr dynamicKey # ptrs) w =
     (case erase_entry dynamicKey w of
        Inl e \<Rightarrow> Inl e
      | Inr w' \<Rightarrow> clear_each ptrs w')"
| "clear_each (_ # ptrs) w = Inl TypeError"

definition clear :: "database \<Rightarrow> error + database" where
  "clear s =
     (case getPointers s of
        Inl e \<Rightarrow> Inl e
      | Inr (pointers, s1) \<Rightarrow>
          (case pointers of
             JArr ptrs \<Rightarrow>
               (case clear_each ptrs (world s1) of
                  Inl e \<Rightarrow> Inl e
                | Inr w \<Rightarrow> Inr (setPointers (JArr []) (s1\<lparr>world := w\<rparr>)))
           | _ \<Rightarrow> Inl TypeError))"

text \<open>
  \<open>entries\<close> (lines 183 to 189). \<open>map\<close> is a method of arrays only, and \<open>split\<close> one of
  strings only. \<open>ptr.split("/").pop()\<close> is what follows the last \<open>/\<close>; the first
  call that does not return a value ends the enumeration.
\<close>

definition last_segment :: "string \<Rightarrow> string" where
  "last_segment ptr = rev (takeWhile (\<lambda>c. c \<noteq> CHR ''/'') (rev ptr))"

fun entries_of :: "database \<Rightarrow> json list \<Rightarrow> error + (string \<times> json option) list" where
  "entries_of s [] = Inr []"
| "entries_of s (JStr ptr # ptrs) =
     (let key = last_segment ptr in
      case get key s of
        Inl e \<Rightarrow> Inl e
      | Inr v \<Rightarrow>
          (case entries_of s ptrs of
             Inl e \<Rightarrow> Inl e
           | Inr r \<Rightarrow> Inr ((key, v) # r)))"
| "entries_of s (_ # ptrs) = Inl TypeError"

definition entries :: "database \<Rightarrow> error + ((string \<times> json option) list \<times> database)" where
  "entries s =
     (case getPointers s of
        Inl e \<Rightarrow> Inl e
      | Inr (pointers, s1) \<Rightarrow>
          (case pointers of
             JArr ptrs \<Rightarrow> map_sum id (\<lambda>r. (r, s1)) (entries_of s1 ptrs)
           | _ \<Rightarrow> Inl TypeError))"

section \<open>Properties of the entries and of the pointer list\<close>

text \<open>
  \<open>loop_ends meta\<close>: the loop over the parts of an entry that holds \<open>meta\<close> ends. Either
  \<open>meta\<close> is not a text of digits, and there is no loop, or the number \<open>parseInt\<close> reads
  is at most \<open>2 ^ 53\<close>, which the index reaches. \<open>erased\<close> is what such a loop and the
  removal of the entry leave.
\<close>

definition loop_ends :: "string option \<Rightarrow> bool" where
  "loop_ends meta = (if isDigits (or_empty meta) then parseInt (or_empty meta) \<le> 2 ^ 53 else True)"

definition erased :: "string \<Rightarrow> world \<Rightarrow> world" where
  "erased dynamicKey w =
     (let meta = w dynamicKey;
          w1 = (if isDigits (or_empty meta)
                then fold (\<lambda>i w'. w'(partKey dynamicKey i := None)) [0..<parseInt (or_empty meta)] w
                else w)
      in w1(dynamicKey := None))"

text \<open>
  \<open>persisted\<close> is the pointer list as a new instance would load it from the index key.
  \<open>duplicate_free\<close>: the cached list, when there is one, is an array without a repeated
  element, and so is the persisted list.
\<close>

definition persisted :: "database \<Rightarrow> error + json" where
  "persisted s = map_sum id fst (getPointers (s\<lparr>cachedPointers := None\<rparr>))"

definition distinct_array :: "json \<Rightarrow> bool" where
  "distinct_array v = (case v of JArr vs \<Rightarrow> distinct vs | _ \<Rightarrow> False)"

definition duplicate_free :: "database \<Rightarrow> bool" where
  "duplicate_free s =
     ((case cachedPointers s of None \<Rightarrow> True | Some v \<Rightarrow> distinct_array v) \<and>
      (case persisted s of Inl e \<Rightarrow> False | Inr v \<Rightarrow> distinct_array v))"

section \<open>Sessions\<close>

text \<open>
  A session is a run of calls on one instance; it stops at the first call that does not
  return a value. \<open>lookup\<close> reads one property of the state a session ends in, and
  \<open>reopen\<close> makes a new instance of the same name on the properties it ends with.
\<close>

definition then_set :: "error + database \<Rightarrow> string \<Rightarrow> json \<Rightarrow> error + database" where
  "then_set r key v = (case r of Inl e \<Rightarrow> Inl e | Inr s \<Rightarrow> map_sum id snd (set_value key v s))"

definition then_delete :: "error + database \<Rightarrow> string \<Rightarrow> error + database" where
  "then_delete r key = (case r of Inl e \<Rightarrow> Inl e | Inr s \<Rightarrow> delete key s)"

definition then_clear :: "error + database \<Rightarrow> error + database" where
  "then_clear r = (case r of Inl e \<Rightarrow> Inl e | Inr s \<Rightarrow> clear s)"

definition then_get :: "error + database \<Rightarrow> string \<Rightarrow> error + json option" where
  "then_get r key = (case r of Inl e \<Rightarrow> Inl e | Inr s \<Rightarrow> get key s)"

definition then_entries :: "error + database \<Rightarrow> error + (string \<times> json option) list" where
  "then_entries r = (case r of Inl e \<Rightarrow> Inl e | Inr s \<Rightarrow> map_sum id fst (entries s))"

definition reopen :: "error + database \<Rightarrow> error + database" where
  "reopen r = (case r of Inl e \<Rightarrow> Inl e | Inr s \<Rightarrow> constructor (name s) (world s))"

definition pointers_of :: "error + database \<Rightarrow> error + json option" where
  "pointers_of r = map_sum id cachedPointers r"

definition lookup :: "error + database \<Rightarrow> string \<Rightarrow> error + string option" where
  "lookup r k = map_sum id (\<lambda>s. world s k) r"

section \<open>Example databases\<close>

text \<open>
  \<open>fresh_db\<close> is what \<open>new OptimizedDatabaseV1("db")\<close> returns on a world without
  properties. \<open>rc1_pos\<close> is a database \<open>rc1\<close> with the one key \<open>pos\<close>, its pointer
  list cached. The sessions below start from a new database on a world without
  properties.
\<close>

definition fresh_db :: database where
  "fresh_db = \<lparr>name = ''db'', pointerKey = ''db/pointers'', cachedPointers = None,
     world = [''db/pointers'' \<mapsto> ''[]'']\<rparr>"

definition rc1_pos :: database where
  "rc1_pos = \<lparr>name = ''rc1'', pointerKey = ''rc1/pointers'',
     cachedPointers = Some (JArr [JStr ''rc1/pos'']),
     world = [''rc1/pointers'' \<mapsto> JSON_stringify (JArr [JStr ''rc1/pos'']),
              ''rc1/pos'' \<mapsto> ''[1,2,3]'']\<rparr>"

definition rc1_twice :: "error + database" where
  "rc1_twice =
     then_set (then_set (constructor ''rc1'' Map.empty) ''pos'' (JArr [JNum 1, JNum 2, JNum 3]))
       ''pos'' (JArr [JNum 9, JNum 9, JNum 9])"

definition db_pointers_key :: "error + database" where
  "db_pointers_key = then_set (constructor ''db'' Map.empty) ''pointers'' (JStr ''x'')"

definition db_k_42 :: "error + database" where
  "db_k_42 = then_set (constructor ''db'' Map.empty) ''k'' (JNum 42)"

definition db_pointers_twice :: "error + database" where
  "db_pointers_twice =
     then_set (then_set (constructor ''db'' Map.empty) ''pointers'' (JNum 0))
       ''pointers'' (JArr [JStr ''x'', JStr ''x''])"

definition db_pointers_5 :: "error + database" where
  "db_pointers_5 =
     then_set (then_set (constructor ''db'' Map.empty) ''pointers'' (JNum 5)) ''pointers'' (JNum 5)"

definition db_k_and_a_k :: "error + database" where
  "db_k_and_a_k =
     then_set (then_set (constructor ''db'' Map.empty) ''k'' (JStr ''v'')) ''a/k'' (JStr ''w'')"

definition db_k_and_k_part0 :: "error + database" where
  "db_k_and_k_part0 =
     then_set (then_set (constructor ''db'' Map.empty) ''k'' (JStr ''v'')) ''k_part0'' (JStr ''w'')"

text \<open>
  \<open>db_k_1e20\<close> is the state after \<open>set("k", 1e20)\<close> on \<open>fresh_db\<close>: the entry of \<open>k\<close>
  holds the 21 digits of the number, a text that reads as a chunk count above \<open>2 ^ 53\<close>.
\<close>

definition db_k_1e20 :: database where
  "db_k_1e20 = \<lparr>name = ''db'', pointerKey = ''db/pointers'',
     cachedPointers = Some (JArr [JStr ''db/k'']),
     world = [''db/k'' \<mapsto> ''100000000000000000000'',
              ''db/pointers'' \<mapsto> JSON_stringify (JArr [JStr ''db/k''])]\<rparr>"

text \<open>
  \<open>big_value\<close> is a string of 30000 characters; its JSON text has 30002 characters and
  takes two chunks. \<open>db_big\<close> is the state after \<open>set("k", big_value)\<close> on \<open>fresh_db\<close>,
  \<open>db_mixed\<close> the state after \<open>set("m", "x")\<close> on \<open>db_big\<close>, \<open>db_big_twice\<close> the state
  after a second \<open>set("k", big_value)\<close> on \<open>db_big\<close>, and \<open>db_big_twice_small\<close> the
  state after \<open>set("k", "x")\<close> on \<open>db_big_twice\<close>; \<open>db_shrunk\<close> is the session of these
  three \<open>set\<close> calls on the key \<open>k\<close>.
\<close>

definition big_value :: json where
  "big_value = JStr (replicate 30000 (CHR ''a''))"

definition big_text :: string where
  "big_text = JSON_stringify big_value"

definition small_text :: string where
  "small_text = JSON_stringify (JStr ''x'')"

definition db_big :: database where
  "db_big = \<lparr>name = ''db'', pointerKey = ''db/pointers'',
     cachedPointers = Some (JArr [JStr ''db/k'']),
     world = (write_entry ''db/k'' big_text [''db/pointers'' \<mapsto> ''[]''])
               (''db/pointers'' \<mapsto> JSON_stringify (JArr [JStr ''db/k'']))\<rparr>"

definition db_mixed :: database where
  "db_mixed = \<lparr>name = ''db'', pointerKey = ''db/pointers'',
     cachedPointers = Some (JArr [JStr ''db/k'', JStr ''db/m'']),
     world = (write_entry ''db/m'' small_text (world db_big))
               (''db/pointers'' \<mapsto> JSON_stringify (JArr [JStr ''db/k'', JStr ''db/m'']))\<rparr>"

definition db_big_twice :: database where
  "db_big_twice = \<lparr>name = ''db'', pointerKey = ''db/pointers'', cachedPointers = Some (JArr []),
     world = write_entry ''db/k'' big_text
               ((erased ''db/k'' (world db_big))(''db/pointers'' \<mapsto> ''[]''))\<rparr>"

definition db_big_twice_small :: database where
  "db_big_twice_small = \<lparr>name = ''db'', pointerKey = ''db/pointers'',
     cachedPointers = Some (JArr [JStr ''db/k'']),
     world = (write_entry ''db/k'' small_text (world db_big_twice))
               (''db/pointers'' \<mapsto> JSON_stringify (JArr [JStr ''db/k'']))\<rparr>"

definition db_shrunk :: "error + database" where
  "db_shrunk =
     then_set (then_set (then_set (constructor ''db'' Map.empty) ''k'' big_value) ''k'' big_value)
       ''k'' (JStr ''x'')"

text \<open>
  \<open>huge_value\<close> is a string of 90000 characters; its JSON text takes four chunks, so
  part key 3 of \<open>db/b\<close> is in use. That key is also the entry key of the key \<open>b_part3\<close>.
  \<open>db_b_part3\<close> is the state after \<open>set("b", huge_value)\<close> and \<open>set("b_part3", big_value)\<close>
  on a new database \<open>db\<close>.
\<close>

definition huge_value :: json where
  "huge_value = JStr (replicate 90000 (CHR ''a''))"

definition huge_text :: string where
  "huge_text = JSON_stringify huge_value"

definition db_b :: database where
  "db_b = \<lparr>name = ''db'', pointerKey = ''db/pointers'',
     cachedPointers = Some (JArr [JStr ''db/b'']),
     world = (write_entry ''db/b'' huge_text [''db/pointers'' \<mapsto> ''[]''])
               (''db/pointers'' \<mapsto> JSON_stringify (JArr [JStr ''db/b'']))\<rparr>"

definition db_b_part3 :: database where
  "db_b_part3 = \<lparr>name = ''db'', pointerKey = ''db/pointers'',
     cachedPointers = Some (JArr [JStr ''db/b'', JStr ''db/b_part3'']),
     world = (write_entry ''db/b_part3'' big_text (world db_b))
               (''db/pointers'' \<mapsto> JSON_stringify (JArr [JStr ''db/b'', JStr ''db/b_part3'']))\<rparr>"

section \<open>The pointer array as an object\<close>

text \<open>
  \<open>set\<close> and \<open>delete\<close> once more, with the pointer arrays as objects in a store. A
  variable holds a \<open>reference\<close>: a primitive value (\<open>null\<close>, a boolean, a number, a
  string), or the address of an array. An array that \<open>JSON.parse\<close>, \<open>[]\<close> or \<open>filter\<close>
  makes is a new object; \<open>push\<close> changes an array in place; \<open>includes\<close> and
  \<open>JSON.stringify\<close> read the array at an address as it is at that moment (\<open>deref\<close>).
  \<open>view\<close> forgets the store and keeps the value the cached reference stands for.
\<close>

datatype reference = Primitive json | Array nat

record objects =
  o_name :: string
  o_pointerKey :: string
  o_cachedPointers :: reference
  o_arrays :: "nat \<Rightarrow> json list"
  o_fresh :: nat
  o_world :: world

definition new_array :: "json list \<Rightarrow> objects \<Rightarrow> nat \<times> objects" where
  "new_array xs s =
     (o_fresh s, s\<lparr>o_arrays := (o_arrays s)(o_fresh s := xs), o_fresh := Suc (o_fresh s)\<rparr>)"

definition new_value :: "json \<Rightarrow> objects \<Rightarrow> reference \<times> objects" where
  "new_value v s =
     (case v of
        JArr xs \<Rightarrow> (let (a, s') = new_array xs s in (Array a, s'))
      | _ \<Rightarrow> (Primitive v, s))"

definition deref :: "objects \<Rightarrow> reference \<Rightarrow> json" where
  "deref s r = (case r of Primitive v \<Rightarrow> v | Array a \<Rightarrow> JArr (o_arrays s a))"

definition o_getPointers :: "objects \<Rightarrow> error + (reference \<times> objects)" where
  "o_getPointers s =
     (if o_cachedPointers s \<noteq> Primitive JNull then Inr (o_cachedPointers s, s)
      else if falsy (o_world s (o_pointerKey s))
      then (let (r, s') = new_value (JArr []) s in Inr (r, s'\<lparr>o_cachedPointers := r\<rparr>))
      else
        (case JSON_parse (or_empty (o_world s (o_pointerKey s))) of
           Inl e \<Rightarrow> Inl e
         | Inr v \<Rightarrow> (let (r, s') = new_value v s in Inr (r, s'\<lparr>o_cachedPointers := r\<rparr>))))"

definition o_setPointers :: "reference \<Rightarrow> objects \<Rightarrow> objects" where
  "o_setPointers r s =
     s\<lparr>o_cachedPointers := r,
       o_world := (o_world s)(o_pointerKey s \<mapsto> JSON_stringify (deref s r))\<rparr>"

definition o_push :: "reference \<Rightarrow> string \<Rightarrow> objects \<Rightarrow> error + objects" where
  "o_push r dynamicKey s =
     (case r of
        Array a \<Rightarrow> Inr (s\<lparr>o_arrays := (o_arrays s)(a := o_arrays s a @ [JStr dynamicKey])\<rparr>)
      | Primitive v \<Rightarrow> Inl TypeError)"

definition o_delete :: "string \<Rightarrow> objects \<Rightarrow> error + objects" where
  "o_delete key s =
     (case o_getPointers s of
        Inl e \<Rightarrow> Inl e
      | Inr (pointers, s1) \<Rightarrow>
          let dynamicKey = o_name s1 @ ''/'' @ key in
          (case includes_key (deref s1 pointers) dynamicKey of
             Inl e \<Rightarrow> Inl e
           | Inr present \<Rightarrow>
               if present then
                 (case erase_entry dynamicKey (o_world s1) of
                    Inl e \<Rightarrow> Inl e
                  | Inr w \<Rightarrow>
                      (let s2 = s1\<lparr>o_world := w\<rparr> in
                       case filter_key (deref s2 pointers) dynamicKey of
                         Inl e \<Rightarrow> Inl e
                       | Inr v \<Rightarrow>
                           (let (filtered, s3) = new_value v s2 in
                            Inr (o_setPointers filtered s3))))
               else Inr s1))"

definition o_set :: "string \<Rightarrow> json \<Rightarrow> objects \<Rightarrow> error + (bool \<times> objects)" where
  "o_set key v s =
     (let serialized = JSON_stringify v in
      case o_getPointers s of
        Inl e \<Rightarrow> Inl e
      | Inr (pointers, s1) \<Rightarrow>
          let dynamicKey = o_name s1 @ ''/'' @ key in
          (case includes_key (deref s1 pointers) dynamicKey of
             Inl e \<Rightarrow> Inl e
           | Inr present \<Rightarrow>
               (case (if present
                      then map_sum id (Pair True) (o_delete key s1)
                      else Inr (False, s1)) of
                  Inl e \<Rightarrow> Inl e
                | Inr (dataExists, s2) \<Rightarrow>
                    let s3 = s2\<lparr>o_world := write_entry dynamicKey serialized (o_world s2)\<rparr> in
                    (case includes_key (deref s3 pointers) dynamicKey of
                       Inl e \<Rightarrow> Inl e
                     | Inr still \<Rightarrow>
                         if \<not> still then
                           (case o_push pointers dynamicKey s3 of
                              Inl e \<Rightarrow> Inl e
                            | Inr s4 \<Rightarrow> Inr (dataExists, o_setPointers pointers s4))
                         else Inr (dataExists, s3)))))"

definition view :: "objects \<Rightarrow> database" where
  "view s = \<lparr>name = o_name s, pointerKey = o_pointerKey s,
     cachedPointers = to_cache (deref s (o_cachedPointers s)), world = o_world s\<rparr>"

text \<open>
  \<open>allocated\<close>: the cached reference is a primitive that is not an array, or an address
  that is in use.
\<close>

definition allocated :: "objects \<Rightarrow> bool" where
  "allocated s =
     (case o_cachedPointers s of
        Array a \<Rightarrow> a < o_fresh s
      | Primitive v \<Rightarrow> (case v of JArr xs \<Rightarrow> False | _ \<Rightarrow> True))"

definition o_constructor :: "string \<Rightarrow> world \<Rightarrow> error + objects" where
  "o_constructor nm w =
     (if nm = [] then Inl EmptyName
      else if CHR 0x22 \<in> set nm \<or> CHR ''/'' \<in> set nm then Inl InvalidNameChars
      else
        let pk = nm @ ''/pointers'' in
        Inr \<lparr>o_name = nm, o_pointerKey = pk, o_cachedPointers = Primitive JNull,
             o_arrays = (\<lambda>a. []), o_fresh = 0,
             o_world = (if falsy (w pk) then w(pk \<mapsto> JSON_stringify (JArr [])) else w)\<rparr>)"

definition o_then_set :: "error + objects \<Rightarrow> string \<Rightarrow> json \<Rightarrow> error + objects" where
  "o_then_set r key v = (case r of Inl e \<Rightarrow> Inl e | Inr s \<Rightarrow> map_sum id snd (o_set key v s))"

definition all_allocated :: "error + objects \<Rightarrow> bool" where
  "all_allocated r = (case r of Inl e \<Rightarrow> True | Inr s \<Rightarrow> allocated s)"

definition o_rc1_twice :: "error + objects" where
  "o_rc1_twice =
     o_then_set
       (o_then_set (o_constructor ''rc1'' Map.empty) ''pos'' (JArr [JNum 1, JNum 2, JNum 3]))
       ''pos'' (JArr [JNum 9, JNum 9, JNum 9])"

definition o_db_shrunk :: "error + objects" where
  "o_db_shrunk =
     o_then_set
       (o_then_set (o_then_set (o_constructor ''db'' Map.empty) ''k'' big_value) ''k'' big_value)
       ''k'' (JStr ''x'')"

text \<open>
  The tokens of the JSON text of a list of strings, as the lexer reads the persisted
  pointer list.
\<close>

fun string_tokens :: "string list \<Rightarrow> token list" where
  "string_tokens [] = []"
| "string_tokens [x] = [TAtom (JStr x)]"
| "string_tokens (x # y # ys) = TAtom (JStr x) # TComma # string_tokens (y # ys)"

section \<open>Doubles\<close>

lemma bit_length_le: "n < 2 ^ k \<Longrightarrow> bit_length n \<le> k"
proof (induction n arbitrary: k rule: bit_length.induct)
  case (1 n)
  show ?case
  proof (cases "n = 0")
    case True
    then show ?thesis by (simp add: bit_length.simps)
  next
    case False
    with 1(2) obtain k' where k: "k = Suc k'" by (cases k) auto
    with 1(2) have "n div 2 < 2 ^ k'" by auto
    from 1(1)[OF False this] have "bit_length (n div 2) \<le> k'" .
    with False k show ?thesis by (subst bit_length.simps) simp
  qed
qed

lemma bit_length_gt: "2 ^ k \<le> n \<Longrightarrow> k < bit_length n"
proof (induction k arbitrary: n)
  case 0
  then show ?case by (subst bit_length.simps) simp
next
  case (Suc k)
  then have "2 ^ k \<le> n div 2" by auto
  from Suc.IH[OF this] have "k < bit_length (n div 2)" .
  moreover have "(0::nat) < 2 ^ Suc k" by simp
  with Suc.prems have "n \<noteq> 0" by linarith
  ultimately show ?case by (subst bit_length.simps) simp
qed

lemma to_double_below: "n < 2 ^ 53 \<Longrightarrow> to_double n = n"
  using bit_length_le[of n 53] by (simp add: to_double_def)

lemma bit_length_54: "2 ^ 53 \<le> n \<Longrightarrow> n < 2 ^ 54 \<Longrightarrow> bit_length n = 54"
  using bit_length_le[of n 54] bit_length_gt[of 53 n] by simp

lemma to_double_limit: "to_double (2 ^ 53) = 2 ^ 53"
  using bit_length_54[of "2 ^ 53"] by (simp add: to_double_def)

lemma to_double_exact: "n \<le> 2 ^ 53 \<Longrightarrow> to_double n = n"
  using to_double_below[of n] to_double_limit by (cases "n = 2 ^ 53") simp_all

lemma to_double_stall: "to_double (2 ^ 53 + 1) = 2 ^ 53"
  using bit_length_54[of "2 ^ 53 + 1"] by (simp add: to_double_def)

lemma bit_length_low: "n \<noteq> 0 \<Longrightarrow> 2 ^ (bit_length n - 1) \<le> n"
proof (rule ccontr)
  assume n: "n \<noteq> 0" and "\<not> 2 ^ (bit_length n - 1) \<le> n"
  then have "n < 2 ^ (bit_length n - 1)" by simp
  from bit_length_le[OF this] have "bit_length n \<le> bit_length n - 1" .
  moreover have "0 < bit_length n" using n by (subst bit_length.simps) simp
  ultimately show False by linarith
qed

lemma to_double_ge: "n div 2 ^ (bit_length n - 53) * 2 ^ (bit_length n - 53) \<le> to_double n"
  by (simp add: to_double_def Let_def)

lemma to_double_above:
  assumes "2 ^ 53 + 2 \<le> n"
  shows "2 ^ 53 < to_double n"
proof -
  define e where "e = bit_length n - 53"
  define E :: nat where "E = 2 ^ e"
  define q where "q = n div E"
  from assms have n: "2 ^ 53 \<le> n" "n \<noteq> 0" by simp_all
  from bit_length_gt[OF n(1)] have b: "53 < bit_length n" .
  have ge: "q * E \<le> to_double n"
    using to_double_ge[of n] by (simp add: q_def E_def e_def)
  have "bit_length n - 1 = 52 + e" using b unfolding e_def by linarith
  with bit_length_low[OF n(2)] have "2 ^ (52 + e) \<le> n" by simp
  then have low: "2 ^ 52 * E \<le> n" by (simp only: power_add E_def)
  have Epos: "0 < E" by (simp add: E_def)
  from low Epos have q52: "2 ^ 52 \<le> q"
    unfolding q_def by (simp add: less_eq_div_iff_mult_less_eq)
  have e1: "1 \<le> e" using b unfolding e_def by linarith
  have "2 ^ 53 < q * E"
  proof (cases "e = 1")
    case True
    then have E2: "E = 2" by (simp add: E_def)
    from assms have "2 ^ 52 + 1 \<le> n div 2" by simp
    then show ?thesis unfolding q_def E2 by simp
  next
    case False
    with e1 have "2 \<le> e" by linarith
    then have "(2::nat) ^ 2 \<le> 2 ^ e" by (intro power_increasing) simp_all
    then have "4 \<le> E" by (simp add: E_def)
    with q52 have "2 ^ 52 * 4 \<le> q * E" by (rule mult_le_mono)
    then show ?thesis by simp
  qed
  with ge show ?thesis by linarith
qed

lemma increment_below: "i < 2 ^ 53 \<Longrightarrow> increment i = i + 1"
  by (simp add: increment_def to_double_exact)

lemma increment_stall: "increment (2 ^ 53) = 2 ^ 53"
  using to_double_stall by (simp add: increment_def)

section \<open>Decimal texts and part keys\<close>

lemma below_10: "(d::nat) < 10 \<Longrightarrow> d \<in> {0, 1, 2, 3, 4, 5, 6, 7, 8, 9}"
  by (simp add: numeral_eq_Suc less_Suc_eq)

lemma digit_char_is_digit: "d < 10 \<Longrightarrow> is_digit (digit_char d)"
  using below_10[of d] by (auto simp: digit_char_def is_digit_def)

lemma digit_val_digit_char: "d < 10 \<Longrightarrow> digit_val (digit_char d) = d"
proof -
  assume "d < 10"
  then show ?thesis
    using below_10[of d] by (auto simp: digit_char_def digit_val_def)
qed

lemma digit_char_inj: "a < 10 \<Longrightarrow> b < 10 \<Longrightarrow> digit_char a = digit_char b \<Longrightarrow> a = b"
  by (metis digit_val_digit_char)

lemma toString_not_Nil: "toString n \<noteq> []" "[] \<noteq> toString n"
  by (subst toString.simps, simp)+

lemma toString_digits: "list_all is_digit (toString n)"
proof (induction n rule: toString.induct)
  case (1 n)
  show ?case
  proof (cases "n < 10")
    case True
    then show ?thesis by (subst toString.simps) (simp add: digit_char_is_digit)
  next
    case False
    with 1 show ?thesis by (subst toString.simps) (simp add: digit_char_is_digit)
  qed
qed

lemma isDigits_toString: "isDigits (toString n)"
  by (simp add: isDigits_def toString_not_Nil toString_digits)

lemma toString_last: "last (toString n) = digit_char (n mod 10)"
  by (subst toString.simps) simp

lemma toString_butlast: "butlast (toString n) = (if n < 10 then [] else toString (n div 10))"
  by (subst toString.simps) simp

lemma toString_inj: "toString m = toString n \<Longrightarrow> m = n"
proof (induction m arbitrary: n rule: toString.induct)
  case (1 m)
  from 1(2) have l: "digit_char (m mod 10) = digit_char (n mod 10)"
    by (metis toString_last)
  then have md: "m mod 10 = n mod 10"
    by (intro digit_char_inj) simp_all
  from 1(2) have b: "butlast (toString m) = butlast (toString n)" by simp
  show ?case
  proof (cases "m < 10")
    case True
    with b have "n < 10"
      by (auto simp: toString_butlast toString_not_Nil split: if_splits)
    with True md show ?thesis by simp
  next
    case False
    with b have n: "\<not> n < 10" and e: "toString (m div 10) = toString (n div 10)"
      by (auto simp: toString_butlast toString_not_Nil split: if_splits)
    from 1(1)[OF False e] have "m div 10 = n div 10" .
    with md show ?thesis by (metis div_mult_mod_eq)
  qed
qed

lemma digits_value_snoc: "digits_value (xs @ [c]) = 10 * digits_value xs + digit_val c"
  by (simp add: digits_value_def)

lemma digits_value_toString: "digits_value (toString n) = n"
proof (induction n rule: toString.induct)
  case (1 n)
  show ?case
  proof (cases "n < 10")
    case True
    then show ?thesis
      by (subst toString.simps) (simp add: digits_value_def digit_val_digit_char)
  next
    case False
    with 1 have "digits_value (toString (n div 10)) = n div 10" by simp
    with False show ?thesis
      by (subst toString.simps) (simp add: digits_value_snoc digit_val_digit_char)
  qed
qed

lemma parseInt_toString: "n \<le> 2 ^ 53 \<Longrightarrow> parseInt (toString n) = n"
  by (simp add: parseInt_def digits_value_toString to_double_exact)

lemma partKey_inj: "partKey k i = partKey k j \<Longrightarrow> i = j"
  by (simp add: partKey_def toString_inj)

lemma partKey_neq_base: "partKey k i \<noteq> k"
  by (simp add: partKey_def)

lemma last_partKey_digit: "is_digit (last (partKey k i))"
proof -
  have "last (partKey k i) = digit_char (i mod 10)"
    by (simp add: partKey_def toString_not_Nil toString_last)
  then show ?thesis by (simp add: digit_char_is_digit)
qed

lemma partKey_neq_pointers: "partKey k i \<noteq> nm @ ''/pointers''"
proof
  assume "partKey k i = nm @ ''/pointers''"
  then have "last (partKey k i) = CHR ''s''" by simp
  with last_partKey_digit[of k i] show False by (simp add: is_digit_def)
qed


section \<open>The loops over the parts\<close>

text \<open>
  A loop whose count is at most \<open>2 ^ 53\<close> ends after that many rounds. With a count
  above \<open>2 ^ 53\<close> the index stops growing at \<open>2 ^ 53\<close> and the loop does not end.
\<close>

lemma erase_parts_from:
  "i \<le> n \<Longrightarrow> n \<le> 2 ^ 53 \<Longrightarrow>
     erase_parts k n i w = Some (fold (\<lambda>i w'. w'(partKey k i := None)) [i..<n] w)"
proof (induction "n - i" arbitrary: i w)
  case 0
  then show ?case by (subst erase_parts.simps) simp
next
  case (Suc d)
  then have lt: "i < n" and i: "i < 2 ^ 53" by simp_all
  have "erase_parts k n (i + 1) (w(partKey k i := None)) =
        Some (fold (\<lambda>i w'. w'(partKey k i := None)) [i + 1..<n] (w(partKey k i := None)))"
    using Suc by (intro Suc.hyps(1)) simp_all
  with lt i show ?case
    by (subst erase_parts.simps) (simp add: increment_below upt_conv_Cons)
qed

lemma erase_parts_ends:
  "n \<le> 2 ^ 53 \<Longrightarrow>
     erase_parts k n 0 w = Some (fold (\<lambda>i w'. w'(partKey k i := None)) [0..<n] w)"
  by (rule erase_parts_from) simp_all

lemma increment_bounded: "i \<le> 2 ^ 53 \<Longrightarrow> increment i \<le> 2 ^ 53"
  using increment_below[of i] increment_stall by (cases "i = 2 ^ 53") simp_all

lemma erase_parts_stuck:
  assumes "erase_parts k n i w = Some r"
  shows "\<not> (i \<le> 2 ^ 53 \<and> 2 ^ 53 < n)"
  using assms
proof (induction rule: erase_parts.raw_induct[rotated 1, consumes 1])
  case (1 erase_parts k n i w r)
  show ?case
  proof
    assume a: "i \<le> 2 ^ 53 \<and> 2 ^ 53 < n"
    then have "increment i \<le> 2 ^ 53" using increment_bounded[of i] by simp
    with 1 a show False by (auto split: if_splits)
  qed
qed

lemma erase_parts_never: "2 ^ 53 < n \<Longrightarrow> erase_parts k n 0 w = None"
  using erase_parts_stuck[of k n 0 w] by (cases "erase_parts k n 0 w") auto

lemma read_parts_from:
  "i \<le> n \<Longrightarrow> n \<le> 2 ^ 53 \<Longrightarrow>
     read_parts k w n i acc = Some (acc @ concat (map (\<lambda>i. or_empty (w (partKey k i))) [i..<n]))"
proof (induction "n - i" arbitrary: i acc)
  case 0
  then show ?case by (subst read_parts.simps) simp
next
  case (Suc d)
  then have lt: "i < n" and i: "i < 2 ^ 53" by simp_all
  have "read_parts k w n (i + 1) (acc @ or_empty (w (partKey k i))) =
        Some ((acc @ or_empty (w (partKey k i))) @
              concat (map (\<lambda>i. or_empty (w (partKey k i))) [i + 1..<n]))"
    using Suc by (intro Suc.hyps(1)) simp_all
  with lt i show ?case
    by (subst read_parts.simps) (simp add: increment_below upt_conv_Cons)
qed

lemma read_parts_ends:
  "n \<le> 2 ^ 53 \<Longrightarrow>
     read_parts k w n 0 [] = Some (concat (map (\<lambda>i. or_empty (w (partKey k i))) [0..<n]))"
  using read_parts_from[of 0 n k w "[]"] by simp

lemma read_parts_stuck:
  assumes "read_parts k w n i acc = Some r"
  shows "\<not> (i \<le> 2 ^ 53 \<and> 2 ^ 53 < n)"
  using assms
proof (induction rule: read_parts.raw_induct[rotated 1, consumes 1])
  case (1 read_parts k w n i acc r)
  show ?case
  proof
    assume a: "i \<le> 2 ^ 53 \<and> 2 ^ 53 < n"
    then have "increment i \<le> 2 ^ 53" using increment_bounded[of i] by simp
    with 1 a show False by (auto split: if_splits)
  qed
qed

lemma read_parts_never: "2 ^ 53 < n \<Longrightarrow> read_parts k w n 0 [] = None"
  using read_parts_stuck[of k w n 0 "[]"] by (cases "read_parts k w n 0 []") auto

lemma erase_entry_ends: "loop_ends (w k) \<Longrightarrow> erase_entry k w = Inr (erased k w)"
proof (cases "isDigits (or_empty (w k))")
  case True
  assume "loop_ends (w k)"
  with True have "parseInt (or_empty (w k)) \<le> 2 ^ 53" by (simp add: loop_ends_def)
  from erase_parts_ends[OF this] True show ?thesis
    by (simp add: erase_entry_def erased_def Let_def)
next
  case False
  then show ?thesis by (simp add: erase_entry_def erased_def Let_def)
qed

lemma erase_entry_never: "\<not> loop_ends (w k) \<Longrightarrow> erase_entry k w = Inl NeverReturns"
proof -
  assume "\<not> loop_ends (w k)"
  then have d: "isDigits (or_empty (w k))" and "2 ^ 53 < parseInt (or_empty (w k))"
    by (simp_all add: loop_ends_def split: if_splits)
  from erase_parts_never[OF this(2)] d show ?thesis
    by (simp add: erase_entry_def Let_def)
qed

lemma erase_entry_cases:
  "erase_entry k w = (if loop_ends (w k) then Inr (erased k w) else Inl NeverReturns)"
  by (simp add: erase_entry_ends erase_entry_never)

lemma loop_ends_None: "loop_ends None"
  by (simp add: loop_ends_def or_empty_def isDigits_def)

section \<open>Writing and erasing the parts of an entry\<close>

lemma fold_put_parts_hit:
  "i < n \<Longrightarrow> fold (\<lambda>i w'. w'(partKey k i \<mapsto> f i)) [0..<n] w (partKey k i) = Some (f i)"
proof (induction n)
  case 0
  then show ?case by simp
next
  case (Suc n)
  show ?case
  proof (cases "i = n")
    case True
    then show ?thesis by simp
  next
    case False
    with Suc have "i < n" by simp
    with Suc.IH False show ?thesis by (auto dest: partKey_inj)
  qed
qed

lemma fold_put_parts_miss:
  "(\<And>i. i < n \<Longrightarrow> x \<noteq> partKey k i) \<Longrightarrow>
     fold (\<lambda>i w'. w'(partKey k i \<mapsto> f i)) [0..<n] w x = w x"
  by (induction n) simp_all

lemma fold_drop_parts_hit:
  "i < n \<Longrightarrow> fold (\<lambda>i w'. w'(partKey k i := None)) [0..<n] w (partKey k i) = None"
proof (induction n)
  case 0
  then show ?case by simp
next
  case (Suc n)
  show ?case
  proof (cases "i = n")
    case True
    then show ?thesis by simp
  next
    case False
    with Suc have "i < n" by simp
    with Suc.IH show ?thesis by simp
  qed
qed

lemma fold_drop_parts_miss:
  "(\<And>i. i < n \<Longrightarrow> x \<noteq> partKey k i) \<Longrightarrow>
     fold (\<lambda>i w'. w'(partKey k i := None)) [0..<n] w x = w x"
  by (induction n) simp_all

lemma fold_drop_parts_None:
  "w x = None \<Longrightarrow> fold (\<lambda>i w'. w'(partKey k i := None)) [0..<n] w x = None"
  by (induction n) simp_all

lemma maxChunkSize_pos: "0 < maxChunkSize"
  by (simp add: maxChunkSize_def)

lemma chunkCount_small: "length t \<le> maxChunkSize \<Longrightarrow> \<not> 1 < chunkCount_of t"
proof -
  assume "length t \<le> maxChunkSize"
  then have "length t + maxChunkSize - 1 < 2 * maxChunkSize"
    using maxChunkSize_pos by linarith
  then have "(length t + maxChunkSize - 1) div maxChunkSize < 2"
    using maxChunkSize_pos by (simp add: less_mult_imp_div_less mult.commute)
  then show ?thesis by (simp add: chunkCount_of_def)
qed

lemma chunkCount_large: "maxChunkSize < length t \<Longrightarrow> 1 < chunkCount_of t"
proof -
  assume "maxChunkSize < length t"
  then have "2 * maxChunkSize \<le> length t + maxChunkSize - 1" by linarith
  then have "2 \<le> (length t + maxChunkSize - 1) div maxChunkSize"
    using maxChunkSize_pos by (simp add: less_eq_div_iff_mult_less_eq mult.commute)
  then show ?thesis by (simp add: chunkCount_of_def)
qed

text \<open>The count is the ceiling of the quotient: the least number of chunks that cover the text.\<close>

lemma chunkCount_covers: "length t \<le> chunkCount_of t * maxChunkSize"
proof -
  let ?m = maxChunkSize
  have "length t + ?m - 1 = (length t + ?m - 1) div ?m * ?m + (length t + ?m - 1) mod ?m"
    by simp
  moreover have "(length t + ?m - 1) mod ?m < ?m"
    using maxChunkSize_pos by simp
  ultimately show ?thesis unfolding chunkCount_of_def by linarith
qed

lemma chunkCount_least: "t \<noteq> [] \<Longrightarrow> (chunkCount_of t - 1) * maxChunkSize < length t"
proof -
  let ?m = maxChunkSize
  assume "t \<noteq> []"
  then have pos: "0 < length t" by simp
  have "(length t + ?m - 1) div ?m * ?m \<le> length t + ?m - 1" by simp
  then have "chunkCount_of t * ?m \<le> length t + ?m - 1" by (simp add: chunkCount_of_def)
  moreover have "(chunkCount_of t - 1) * ?m = chunkCount_of t * ?m - ?m"
    by (simp add: diff_mult_distrib)
  ultimately show ?thesis using pos maxChunkSize_pos by linarith
qed

lemma concat_chunks: "concat (map (\<lambda>i. take m (drop (i * m) t)) [0..<n]) = take (n * m) t"
proof (induction n)
  case 0
  then show ?case by simp
next
  case (Suc n)
  have "take (n * m) t @ take m (drop (n * m) t) = take (n * m + m) t"
    by (simp add: take_add)
  with Suc show ?case by (simp add: add.commute)
qed

lemma substring_chunk: "substring t (i * m) ((i + 1) * m) = take m (drop (i * m) t)"
  by (simp add: substring_def)

lemma write_entry_small:
  "length t \<le> maxChunkSize \<Longrightarrow> write_entry k t w = w(k \<mapsto> t)"
  using chunkCount_small[of t] by (simp add: write_entry_def Let_def)

lemma write_entry_large_base:
  "maxChunkSize < length t \<Longrightarrow> write_entry k t w k = Some (toString (chunkCount_of t))"
  using chunkCount_large[of t] by (simp add: write_entry_def Let_def)

lemma write_entry_large_part:
  "maxChunkSize < length t \<Longrightarrow> i < chunkCount_of t \<Longrightarrow>
     write_entry k t w (partKey k i) = Some (take maxChunkSize (drop (i * maxChunkSize) t))"
  using chunkCount_large[of t] substring_chunk[of t i maxChunkSize]
  by (simp add: write_entry_def Let_def partKey_neq_base fold_put_parts_hit)

lemma write_entry_large_other:
  "maxChunkSize < length t \<Longrightarrow> x \<noteq> k \<Longrightarrow> (\<And>i. i < chunkCount_of t \<Longrightarrow> x \<noteq> partKey k i) \<Longrightarrow>
     write_entry k t w x = w x"
  using chunkCount_large[of t] by (simp add: write_entry_def Let_def fold_put_parts_miss)

lemma write_entry_other:
  "x \<noteq> k \<Longrightarrow> (\<And>i. x \<noteq> partKey k i) \<Longrightarrow> write_entry k t w x = w x"
  by (simp add: write_entry_def Let_def fold_put_parts_miss)

lemma erased_base: "erased k w k = None"
  by (simp add: erased_def Let_def)

lemma erased_None: "w x = None \<Longrightarrow> erased k w x = None"
  by (simp add: erased_def Let_def fold_drop_parts_None)

lemma erased_part:
  "isDigits (or_empty (w k)) \<Longrightarrow> i < parseInt (or_empty (w k)) \<Longrightarrow>
     erased k w (partKey k i) = None"
  by (simp add: erased_def Let_def fold_drop_parts_hit)

lemma erased_other:
  "x \<noteq> k \<Longrightarrow> (\<And>i. x \<noteq> partKey k i) \<Longrightarrow> erased k w x = w x"
  by (simp add: erased_def Let_def fold_drop_parts_miss)

lemma fold_drop_parts_sub:
  "fold (\<lambda>i w'. w'(partKey k i := None)) [0..<n] w x = None \<or>
   fold (\<lambda>i w'. w'(partKey k i := None)) [0..<n] w x = w x"
  by (induction n) auto

lemma erased_sub: "erased k w x = None \<or> erased k w x = w x"
  using fold_drop_parts_sub[of k _ w x] by (auto simp: erased_def Let_def)

lemma erased_loop_ends: "loop_ends (w x) \<Longrightarrow> loop_ends (erased k w x)"
  using erased_sub[of k w x] by (auto simp: loop_ends_None)

section \<open>Chunking\<close>

text \<open>
  C2. The write at lines 81 to 91 of \<open>set\<close>. For a text longer than \<open>maxChunkSize\<close>, with
  \<open>n\<close> the ceiling of length over \<open>maxChunkSize\<close> (the least \<open>n\<close> with
  \<open>length t \<le> n * maxChunkSize\<close>): the entry key holds the decimal text of \<open>n\<close>; part key
  \<open>i\<close> holds the slice of \<open>maxChunkSize\<close> characters from position \<open>i * maxChunkSize\<close>
  (shorter at the end of the text, never longer), for every \<open>i < n\<close>; the slices in
  order make up the text; the \<open>n\<close> part keys are pairwise different, and no other key changes. A text of at
  most \<open>maxChunkSize\<close> characters is written to the entry key and nothing else changes.
\<close>

theorem write_entry_chunks:
  "(maxChunkSize < length t \<longrightarrow>
      (chunkCount_of t - 1) * maxChunkSize < length t \<and>
      length t \<le> chunkCount_of t * maxChunkSize \<and>
      write_entry k t w k = Some (toString (chunkCount_of t)) \<and>
      (\<forall>i < chunkCount_of t.
         write_entry k t w (partKey k i) =
           Some (substring t (i * maxChunkSize) ((i + 1) * maxChunkSize)) \<and>
         substring t (i * maxChunkSize) ((i + 1) * maxChunkSize) =
           take maxChunkSize (drop (i * maxChunkSize) t) \<and>
         length (substring t (i * maxChunkSize) ((i + 1) * maxChunkSize)) \<le> maxChunkSize \<and>
         (\<forall>j < chunkCount_of t. partKey k i = partKey k j \<longrightarrow> i = j)) \<and>
      concat (map (\<lambda>i. substring t (i * maxChunkSize) ((i + 1) * maxChunkSize))
                [0..<chunkCount_of t]) = t \<and>
      (\<forall>x. x \<noteq> k \<and> (\<forall>i < chunkCount_of t. x \<noteq> partKey k i) \<longrightarrow> write_entry k t w x = w x))
   \<and> (length t \<le> maxChunkSize \<longrightarrow> write_entry k t w = w(k \<mapsto> t))"
proof (intro conjI impI)
  assume big: "maxChunkSize < length t"
  then have ne: "t \<noteq> []" by auto
  show "(chunkCount_of t - 1) * maxChunkSize < length t"
    using chunkCount_least[OF ne] .
  show "length t \<le> chunkCount_of t * maxChunkSize"
    by (rule chunkCount_covers)
  show "write_entry k t w k = Some (toString (chunkCount_of t))"
    using big by (rule write_entry_large_base)
  show "\<forall>i < chunkCount_of t.
         write_entry k t w (partKey k i) =
           Some (substring t (i * maxChunkSize) ((i + 1) * maxChunkSize)) \<and>
         substring t (i * maxChunkSize) ((i + 1) * maxChunkSize) =
           take maxChunkSize (drop (i * maxChunkSize) t) \<and>
         length (substring t (i * maxChunkSize) ((i + 1) * maxChunkSize)) \<le> maxChunkSize \<and>
         (\<forall>j < chunkCount_of t. partKey k i = partKey k j \<longrightarrow> i = j)"
    using big write_entry_large_part[of t _ k w] substring_chunk[of t _ maxChunkSize]
    by (auto dest: partKey_inj)
  have "concat (map (\<lambda>i. substring t (i * maxChunkSize) ((i + 1) * maxChunkSize))
                [0..<chunkCount_of t]) = take (chunkCount_of t * maxChunkSize) t"
    using concat_chunks[of maxChunkSize t "chunkCount_of t"]
    by (simp only: substring_chunk)
  then show "concat (map (\<lambda>i. substring t (i * maxChunkSize) ((i + 1) * maxChunkSize))
                [0..<chunkCount_of t]) = t"
    using chunkCount_covers[of t] by simp
  show "\<forall>x. x \<noteq> k \<and> (\<forall>i < chunkCount_of t. x \<noteq> partKey k i) \<longrightarrow> write_entry k t w x = w x"
    using big by (simp add: write_entry_large_other)
next
  assume "length t \<le> maxChunkSize"
  then show "write_entry k t w = w(k \<mapsto> t)" by (rule write_entry_small)
qed

lemma chunkCount_30001: "chunkCount_of (replicate 30001 c) = 2"
  by (simp add: chunkCount_of_def maxChunkSize_def)

lemma toString_2: "toString 2 = ''2''"
  by (simp add: toString.simps digit_char_def)

theorem write_entry_chunks_witness:
  "maxChunkSize < length (replicate 30001 (CHR ''a'')) \<and>
   write_entry ''db/k'' (replicate 30001 (CHR ''a'')) Map.empty ''db/k'' = Some ''2'' \<and>
   write_entry ''db/k'' (replicate 30001 (CHR ''a'')) Map.empty (partKey ''db/k'' 1) = Some ''a'' \<and>
   length ''abc'' \<le> maxChunkSize \<and>
   write_entry ''db/k'' ''abc'' Map.empty = [''db/k'' \<mapsto> ''abc'']"
proof -
  have big: "maxChunkSize < length (replicate 30001 (CHR ''a''))"
    by (simp add: maxChunkSize_def)
  have small: "length ''abc'' \<le> maxChunkSize"
    by (simp add: maxChunkSize_def)
  have s: "substring (replicate 30001 (CHR ''a'')) (1 * maxChunkSize) ((1 + 1) * maxChunkSize) = ''a''"
    by (simp add: substring_def maxChunkSize_def)
  from big small s
    write_entry_chunks[of "replicate 30001 (CHR ''a'')" "''db/k''" Map.empty]
    write_entry_chunks[of "''abc''" "''db/k''" Map.empty]
  show ?thesis
    by (simp add: chunkCount_30001 toString_2)
qed

section \<open>The operations, step by step\<close>

text \<open>The three array methods on a pointer list that is an array of strings.\<close>

lemma includes_key_strings: "includes_key (JArr (map JStr ps)) k = Inr (k \<in> set ps)"
  by (auto simp: includes_key_def)

lemma filter_key_strings:
  "filter_key (JArr (map JStr ps)) k = Inr (JArr (map JStr (filter (\<lambda>ptr. ptr \<noteq> k) ps)))"
  by (simp add: filter_key_def filter_map comp_def)

lemma push_key_strings: "push_key (JArr (map JStr ps)) k = Inr (JArr (map JStr (ps @ [k])))"
  by (simp add: push_key_def)

lemma to_cache_array: "to_cache (JArr vs) = Some (JArr vs)"
  by (simp add: to_cache_def)

lemma getPointers_cached:
  "cachedPointers s = Some (JArr vs) \<Longrightarrow> getPointers s = Inr (JArr vs, s)"
  by (simp add: getPointers_def cached_def)

lemma getPointers_result:
  "getPointers s = Inr (JArr vs, s1) \<Longrightarrow> s1 = s\<lparr>cachedPointers := Some (JArr vs)\<rparr>"
  by (cases "cachedPointers s")
     (auto simp: getPointers_def cached_def to_cache_def split: if_splits sum.splits)

lemma getPointers_fields:
  assumes "getPointers s = Inr (JArr vs, s1)"
  shows "name s1 = name s" "pointerKey s1 = pointerKey s" "world s1 = world s"
    "cachedPointers s1 = Some (JArr vs)" "getPointers s1 = Inr (JArr vs, s1)"
  using getPointers_result[OF assms] by (simp_all add: getPointers_def cached_def)

lemma delete_eq:
  assumes "getPointers s = Inr (JArr (map JStr ps), s1)"
  shows "delete key s =
     (if name s @ ''/'' @ key \<in> set ps
      then (if loop_ends (world s (name s @ ''/'' @ key))
            then Inr (setPointers (JArr (map JStr (filter (\<lambda>ptr. ptr \<noteq> name s @ ''/'' @ key) ps)))
                        (s1\<lparr>world := erased (name s @ ''/'' @ key) (world s)\<rparr>))
            else Inl NeverReturns)
      else Inr s1)"
  using assms getPointers_fields[OF assms]
  by (simp add: delete_def Let_def includes_key_strings filter_key_strings erase_entry_cases)

lemma set_value_new:
  assumes "getPointers s = Inr (JArr (map JStr ps), s1)" and "name s @ ''/'' @ key \<notin> set ps"
  shows "set_value key v s =
     Inr (False, setPointers (JArr (map JStr (ps @ [name s @ ''/'' @ key])))
                   (s1\<lparr>world := write_entry (name s @ ''/'' @ key) (JSON_stringify v) (world s)\<rparr>))"
  using assms getPointers_fields[OF assms(1)]
  by (simp add: set_value_def Let_def includes_key_strings push_key_strings)

lemma set_value_overwrite:
  assumes "getPointers s = Inr (JArr (map JStr ps), s1)" and "name s @ ''/'' @ key \<in> set ps"
    and "loop_ends (world s (name s @ ''/'' @ key))"
  shows "set_value key v s =
     Inr (True,
       s1\<lparr>cachedPointers := Some (JArr (map JStr (filter (\<lambda>ptr. ptr \<noteq> name s @ ''/'' @ key) ps))),
          world := write_entry (name s @ ''/'' @ key) (JSON_stringify v)
            ((erased (name s @ ''/'' @ key) (world s))
               (pointerKey s \<mapsto>
                  JSON_stringify (JArr (map JStr (filter (\<lambda>ptr. ptr \<noteq> name s @ ''/'' @ key) ps)))))\<rparr>)"
proof -
  note f = getPointers_fields[OF assms(1)]
  have d: "delete key s1 =
     Inr (setPointers (JArr (map JStr (filter (\<lambda>ptr. ptr \<noteq> name s @ ''/'' @ key) ps)))
            (s1\<lparr>world := erased (name s @ ''/'' @ key) (world s)\<rparr>))"
    using delete_eq[OF f(5), of key] assms(2,3) f by simp
  show ?thesis
    using assms f
    by (simp add: set_value_def Let_def d setPointers_def includes_key_strings to_cache_array)
qed

lemma set_value_never:
  assumes "getPointers s = Inr (JArr (map JStr ps), s1)" and "name s @ ''/'' @ key \<in> set ps"
    and "\<not> loop_ends (world s (name s @ ''/'' @ key))"
  shows "set_value key v s = Inl NeverReturns"
proof -
  note f = getPointers_fields[OF assms(1)]
  have d: "delete key s1 = Inl NeverReturns"
    using delete_eq[OF f(5), of key] assms(2,3) f by simp
  show ?thesis
    using assms f by (simp add: set_value_def Let_def d includes_key_strings)
qed

lemma clear_each_strings:
  "\<forall>p \<in> set ps. loop_ends (w p) \<Longrightarrow> clear_each (map JStr ps) w = Inr (fold erased ps w)"
proof (induction ps arbitrary: w)
  case Nil
  then show ?case by simp
next
  case (Cons q qs)
  then have "\<forall>p \<in> set qs. loop_ends (erased q w p)" by (simp add: erased_loop_ends)
  from Cons.IH[OF this] Cons.prems show ?case by (simp add: erase_entry_ends)
qed

lemma clear_eq:
  assumes "getPointers s = Inr (JArr (map JStr ps), s1)"
    and "\<forall>p \<in> set ps. loop_ends (world s p)"
  shows "clear s = Inr (setPointers (JArr []) (s1\<lparr>world := fold erased ps (world s)\<rparr>))"
  using assms getPointers_fields[OF assms(1)] by (simp add: clear_def clear_each_strings)

section \<open>The two descriptions of \<open>set\<close> agree\<close>

lemma o_getPointers_view:
  assumes "allocated s"
  shows "(case o_getPointers s of
            Inl e \<Rightarrow> getPointers (view s) = Inl e
          | Inr (r, s1) \<Rightarrow>
              getPointers (view s) = Inr (deref s1 r, view s1) \<and>
              o_cachedPointers s1 = r \<and> allocated s1 \<and> o_name s1 = o_name s \<and>
              o_pointerKey s1 = o_pointerKey s \<and> o_world s1 = o_world s \<and>
              (\<forall>a < o_fresh s. o_arrays s1 a = o_arrays s a) \<and> o_fresh s \<le> o_fresh s1)"
  using assms
  by (auto simp: o_getPointers_def cached_def getPointers_def cached_def view_def allocated_def new_array_def
      new_value_def deref_def to_cache_def
      split: reference.splits sum.splits json.splits)

lemma deref_kept:
  assumes "allocated s1" and "o_cachedPointers s1 = r"
    and "\<forall>a < o_fresh s1. o_arrays s2 a = o_arrays s1 a"
  shows "deref s2 r = deref s1 r"
  using assms by (auto simp: deref_def allocated_def split: reference.splits)

lemma deref_world: "deref (s\<lparr>o_world := w\<rparr>) r = deref s r"
  by (cases r) (simp_all add: deref_def)

lemma filter_key_array: "filter_key v k = Inr v' \<Longrightarrow> \<exists>xs. v' = JArr xs"
  by (cases v) (auto simp: filter_key_def)

lemma new_value_array:
  "new_value (JArr xs) s =
     (Array (o_fresh s), s\<lparr>o_arrays := (o_arrays s)(o_fresh s := xs), o_fresh := Suc (o_fresh s)\<rparr>)"
  by (simp add: new_value_def new_array_def)

lemma o_delete_view:
  assumes "allocated s"
  shows "(case o_delete key s of
            Inl e \<Rightarrow> delete key (view s) = Inl e
          | Inr s' \<Rightarrow> delete key (view s) = Inr (view s') \<and> allocated s' \<and>
              (\<forall>a < o_fresh s. o_arrays s' a = o_arrays s a) \<and> o_fresh s \<le> o_fresh s')"
proof (cases "o_getPointers s")
  case (Inl e)
  with o_getPointers_view[OF assms] show ?thesis
    by (simp add: o_delete_def delete_def)
next
  case (Inr p)
  obtain r s1 where p: "p = (r, s1)" by (cases p)
  from o_getPointers_view[OF assms] Inr p
  have g: "getPointers (view s) = Inr (deref s1 r, view s1)"
    and f: "o_cachedPointers s1 = r" "allocated s1" "o_name s1 = o_name s"
      "o_pointerKey s1 = o_pointerKey s" "o_world s1 = o_world s"
    and keep: "\<forall>a < o_fresh s. o_arrays s1 a = o_arrays s a" and le: "o_fresh s \<le> o_fresh s1"
    by simp_all
  let ?dk = "o_name s1 @ ''/'' @ key"
  have n: "name (view s1) = o_name s1" and w: "world (view s1) = o_world s1"
    by (simp_all add: view_def)
  show ?thesis
  proof (cases "includes_key (deref s1 r) ?dk")
    case (Inl e)
    with Inr p g show ?thesis by (simp add: o_delete_def delete_def n)
  next
    case i: (Inr present)
    show ?thesis
    proof (cases present)
      case False
      with i Inr p g f(2) keep le show ?thesis by (simp add: o_delete_def delete_def n)
    next
      case True
      show ?thesis
      proof (cases "erase_entry ?dk (o_world s1)")
        case (Inl e)
        with True i Inr p g show ?thesis by (simp add: o_delete_def delete_def n w)
      next
        case e: (Inr w')
        show ?thesis
        proof (cases "filter_key (deref s1 r) ?dk")
          case (Inl e')
          with e True i Inr p g show ?thesis
            by (simp add: o_delete_def delete_def n w deref_world)
        next
          case fk: (Inr v')
          from filter_key_array[OF fk] obtain xs where v': "v' = JArr xs" by blast
          let ?s3 = "s1\<lparr>o_world := w', o_arrays := (o_arrays s1)(o_fresh s1 := xs),
                        o_fresh := Suc (o_fresh s1)\<rparr>"
          have od: "o_delete key s = Inr (o_setPointers (Array (o_fresh s1)) ?s3)"
            using e fk v' True i Inr p
            by (simp add: o_delete_def deref_world new_value_array)
          have dd: "delete key (view s) = Inr (setPointers (JArr xs) ((view s1)\<lparr>world := w'\<rparr>))"
            using e fk v' True i g by (simp add: delete_def n w)
          have vv: "view (o_setPointers (Array (o_fresh s1)) ?s3) =
                    setPointers (JArr xs) ((view s1)\<lparr>world := w'\<rparr>)"
            by (simp add: view_def o_setPointers_def setPointers_def deref_def to_cache_def)
          have al: "allocated (o_setPointers (Array (o_fresh s1)) ?s3)"
            by (simp add: allocated_def o_setPointers_def)
          have k: "\<forall>a < o_fresh s. o_arrays (o_setPointers (Array (o_fresh s1)) ?s3) a = o_arrays s a"
            using keep le by (simp add: o_setPointers_def)
          have l: "o_fresh s \<le> o_fresh (o_setPointers (Array (o_fresh s1)) ?s3)"
            using le by (simp add: o_setPointers_def)
          show ?thesis
            using dd vv al k l by (simp add: od)
        qed
      qed
    qed
  qed
qed

lemma view_world: "view (s\<lparr>o_world := w\<rparr>) = (view s)\<lparr>world := w\<rparr>"
  by (simp add: view_def deref_world)

lemma allocated_world: "allocated (s\<lparr>o_world := w\<rparr>) = allocated s"
  by (cases "o_cachedPointers s") (simp_all add: allocated_def)

lemma view_fields: "name (view s) = o_name s" "world (view s) = o_world s"
  by (simp_all add: view_def)

lemma o_push_view:
  assumes "allocated s" and "o_cachedPointers s = r"
  shows "(case o_push r k s of
            Inl e \<Rightarrow> push_key (deref s r) k = Inl e
          | Inr s' \<Rightarrow> push_key (deref s r) k = Inr (deref s' r) \<and>
              view (o_setPointers r s') = setPointers (deref s' r) (view s) \<and>
              allocated (o_setPointers r s'))"
  using assms
  by (cases r)
     (auto simp: o_push_def push_key_def deref_def allocated_def view_def o_setPointers_def
        setPointers_def to_cache_def split: json.splits)

text \<open>
  The two descriptions of \<open>set\<close> agree: what \<open>o_set\<close> returns and leaves, seen through
  \<open>view\<close>, is what \<open>set_value\<close> returns and leaves. In particular the array that \<open>set\<close>
  holds still has the entry key after \<open>delete\<close>, which wrote its result to a new array.
\<close>

lemma o_set_view:
  assumes "allocated s"
  shows "map_sum id (\<lambda>(b, s'). (b, view s')) (o_set key v s) = set_value key v (view s) \<and>
         (\<forall>b s'. o_set key v s = Inr (b, s') \<longrightarrow> allocated s')"
proof (cases "o_getPointers s")
  case (Inl e)
  with o_getPointers_view[OF assms] show ?thesis
    by (simp add: o_set_def set_value_def)
next
  case (Inr p)
  obtain r s1 where p: "p = (r, s1)" by (cases p)
  from o_getPointers_view[OF assms] Inr p
  have g: "getPointers (view s) = Inr (deref s1 r, view s1)"
    and f: "o_cachedPointers s1 = r" "allocated s1" "o_name s1 = o_name s"
      "o_pointerKey s1 = o_pointerKey s" "o_world s1 = o_world s"
    by simp_all
  let ?dk = "o_name s1 @ ''/'' @ key"
  let ?t = "JSON_stringify v"
  show ?thesis
  proof (cases "includes_key (deref s1 r) ?dk")
    case (Inl e)
    with Inr p g show ?thesis by (simp add: o_set_def set_value_def view_fields)
  next
    case i: (Inr present)
    show ?thesis
    proof (cases present)
      case True
      show ?thesis
      proof (cases "o_delete key s1")
        case (Inl e)
        with o_delete_view[OF f(2), of key] True i Inr p g show ?thesis
          by (simp add: o_set_def set_value_def view_fields)
      next
        case d: (Inr s2)
        with o_delete_view[OF f(2), of key]
        have dv: "delete key (view s1) = Inr (view s2)" and al: "allocated s2"
          and keep: "\<forall>a < o_fresh s1. o_arrays s2 a = o_arrays s1 a"
          by simp_all
        have same: "deref s2 r = deref s1 r"
          using f(2) f(1) keep by (rule deref_kept)
        let ?s3 = "s2\<lparr>o_world := write_entry ?dk ?t (o_world s2)\<rparr>"
        have os: "o_set key v s = Inr (True, ?s3)"
          using True i Inr p d same by (simp add: o_set_def Let_def deref_world)
        have sv: "set_value key v (view s) =
                  Inr (True, (view s2)\<lparr>world := write_entry ?dk ?t (o_world s2)\<rparr>)"
          using True i g dv by (simp add: set_value_def Let_def view_fields)
        show ?thesis
          using al by (simp add: os sv view_world allocated_world)
      qed
    next
      case False
      let ?s3 = "s1\<lparr>o_world := write_entry ?dk ?t (o_world s1)\<rparr>"
      have al3: "allocated ?s3" and c3: "o_cachedPointers ?s3 = r"
        using f by (simp_all add: allocated_world)
      note pv = o_push_view[OF al3 c3, of ?dk]
      show ?thesis
      proof (cases "o_push r ?dk ?s3")
        case (Inl e)
        with pv have pk: "push_key (deref s1 r) ?dk = Inl e" by (simp add: deref_world)
        have os: "o_set key v s = Inl e"
          using False i Inr p Inl by (simp add: o_set_def Let_def deref_world)
        have sv: "set_value key v (view s) = Inl e"
          using False i g pk by (simp add: set_value_def Let_def view_fields)
        show ?thesis by (simp add: os sv)
      next
        case ps: (Inr s4)
        with pv have pk: "push_key (deref s1 r) ?dk = Inr (deref s4 r)"
          and vv: "view (o_setPointers r s4) = setPointers (deref s4 r) (view ?s3)"
          and al: "allocated (o_setPointers r s4)"
          by (simp_all add: deref_world)
        have os: "o_set key v s = Inr (False, o_setPointers r s4)"
          using False i Inr p ps by (simp add: o_set_def Let_def deref_world)
        have sv: "set_value key v (view s) = Inr (False, setPointers (deref s4 r) (view ?s3))"
          using False i g pk by (simp add: set_value_def Let_def view_fields view_world)
        show ?thesis using al by (simp add: os sv vv)
      qed
    qed
  qed
qed

lemma o_constructor_view:
  "map_sum id view (o_constructor nm w) = constructor nm w \<and> all_allocated (o_constructor nm w)"
  by (simp add: o_constructor_def constructor_def view_def all_allocated_def allocated_def Let_def
      deref_def to_cache_def)

lemma o_then_set_view:
  assumes "all_allocated r"
  shows "map_sum id view (o_then_set r key v) = then_set (map_sum id view r) key v \<and>
         all_allocated (o_then_set r key v)"
proof (cases r)
  case (Inl e)
  then show ?thesis by (simp add: o_then_set_def then_set_def all_allocated_def)
next
  case (Inr s)
  with assms have al: "allocated s" by (simp add: all_allocated_def)
  note v = o_set_view[OF al, of key v]
  have sv: "set_value key v (view s) = map_sum id (\<lambda>(b, s'). (b, view s')) (o_set key v s)"
    by (rule v[THEN conjunct1, symmetric])
  show ?thesis
  proof (cases "o_set key v s")
    case (Inl e)
    with Inr show ?thesis
      by (simp add: o_then_set_def then_set_def all_allocated_def sv)
  next
    case r: (Inr p)
    obtain b s' where p: "p = (b, s')" by (cases p)
    from v r p have "allocated s'" by simp
    with Inr r p show ?thesis
      by (simp add: o_then_set_def then_set_def all_allocated_def sv)
  qed
qed

lemma rc1_twice_objects: "map_sum id view o_rc1_twice = rc1_twice"
proof -
  note c = o_constructor_view[of "''rc1''" Map.empty]
  note s1 = o_then_set_view[OF c[THEN conjunct2], of "''pos''" "JArr [JNum 1, JNum 2, JNum 3]"]
  note s2 = o_then_set_view[OF s1[THEN conjunct2], of "''pos''" "JArr [JNum 9, JNum 9, JNum 9]"]
  show ?thesis
    unfolding rc1_twice_def o_rc1_twice_def
    by (simp only: s2[THEN conjunct1] s1[THEN conjunct1] c[THEN conjunct1])
qed

lemma db_shrunk_objects: "map_sum id view o_db_shrunk = db_shrunk"
proof -
  note c = o_constructor_view[of "''db''" Map.empty]
  note s1 = o_then_set_view[OF c[THEN conjunct2], of "''k''" big_value]
  note s2 = o_then_set_view[OF s1[THEN conjunct2], of "''k''" big_value]
  note s3 = o_then_set_view[OF s2[THEN conjunct2], of "''k''" "JStr ''x''"]
  show ?thesis
    unfolding db_shrunk_def o_db_shrunk_def
    by (simp only: s3[THEN conjunct1] s2[THEN conjunct1] s1[THEN conjunct1] c[THEN conjunct1])
qed

section \<open>The pointer list as JSON text\<close>

lemma below_16:
  "(d::nat) < 16 \<Longrightarrow> d \<in> set [0, 1, 2, 3, 4, 5, 6, 7, 8, 9, 10, 11, 12, 13, 14, 15]"
  by (simp add: numeral_eq_Suc less_Suc_eq)

lemma hex_val_hex_char_ground:
  "\<forall>d \<in> set [0, 1, 2, 3, 4, 5, 6, 7, 8, 9, 10, 11, 12, 13, 14, 15].
     hex_val (hex_char d) = Some d"
  by (simp add: hex_val_def hex_char_def is_digit_def digit_val_def)

lemma hex_val_hex_char: "d < 16 \<Longrightarrow> hex_val (hex_char d) = Some d"
  using below_16[of d] hex_val_hex_char_ground by blast

lemma hex_val_0: "hex_val (CHR ''0'') = Some 0"
  by (simp add: hex_val_def is_digit_def digit_val_def)

lemma unicode_escape_low:
  assumes "(of_char c :: nat) < 32"
  shows "unicode_escape (CHR ''0'') (CHR ''0'') (hex_char (of_char c div 16)) (hex_char (of_char c mod 16))
         = Some c"
proof -
  let ?n = "of_char c :: nat"
  have h: "hex_val (hex_char (?n div 16)) = Some (?n div 16)"
    using assms by (intro hex_val_hex_char) simp
  have l: "hex_val (hex_char (?n mod 16)) = Some (?n mod 16)"
    by (intro hex_val_hex_char) simp
  have "char_of (16 * (?n div 16) + ?n mod 16) = c"
    by simp
  with h l show ?thesis
    by (simp add: unicode_escape_def hex_val_0 del: mult_div_mod_eq)
qed

lemma string_body_quote_char:
  assumes "string_body r = Some (x, t)"
  shows "string_body (quote_char c @ r) = Some (c # x, t)"
proof -
  consider "c = CHR 0x22" | "c = CHR 0x5C" | "c = CHR 0x08" | "c = CHR 0x0C" | "c = CHR 0x0A"
    | "c = CHR 0x0D" | "c = CHR 0x09"
    | "c \<notin> {CHR 0x22, CHR 0x5C, CHR 0x08, CHR 0x0C, CHR 0x0A, CHR 0x0D, CHR 0x09}" "(of_char c :: nat) < 32"
    | "c \<notin> {CHR 0x22, CHR 0x5C, CHR 0x08, CHR 0x0C, CHR 0x0A, CHR 0x0D, CHR 0x09}" "\<not> (of_char c :: nat) < 32"
    by blast
  then show ?thesis
  proof cases
    case 8
    then show ?thesis
      using assms unicode_escape_low[of c] by (simp add: quote_char_def)
  next
    case 9
    then show ?thesis
      using assms by (simp add: quote_char_def)
  qed (use assms in \<open>simp_all add: quote_char_def simple_escape_def\<close>)
qed

lemma string_body_quoted:
  "string_body (concat (map quote_char x) @ CHR 0x22 # r) = Some (x, r)"
  by (induction x) (simp_all add: string_body_quote_char)

lemma tokenize_quote:
  "tokenize (JSON_quote x @ r) = map_option ((#) (TAtom (JStr x))) (tokenize r)"
  using string_body_quoted[of x r] by (simp add: JSON_quote_def is_ws_def)

lemma tokenize_strings:
  "tokenize (join_comma (map JSON_quote xs) @ CHR '']'' # r) =
     map_option (\<lambda>ts. string_tokens xs @ TClose # ts) (tokenize r)"
proof (induction xs rule: string_tokens.induct)
  case 1
  then show ?case by (simp add: is_ws_def option.map_ident)
next
  case (2 x)
  then show ?case
    by (simp add: tokenize_quote is_ws_def option.map_comp comp_def)
next
  case (3 x y ys)
  then show ?case
    by (simp add: tokenize_quote is_ws_def option.map_comp comp_def)
qed

lemma tokenize_string_array:
  "tokenize (JSON_stringify (JArr (map JStr xs))) = Some (TOpen # string_tokens xs @ [TClose])"
  using tokenize_strings[of xs "[]"] by (simp add: is_ws_def comp_def)

lemma prun_strings:
  "prun (AfterVal (fr # st)) (TComma # string_tokens (y # ys) @ TClose # ts) =
     prun (push_value (JArr (rev fr @ map JStr (y # ys))) st) ts"
  by (induction ys arbitrary: fr y) simp_all

lemma prun_string_array:
  "prun (WantVal []) (TOpen # string_tokens xs @ [TClose]) = Some (Done (JArr (map JStr xs)))"
proof (cases xs)
  case Nil
  then show ?thesis by simp
next
  case (Cons x xs')
  show ?thesis
  proof (cases xs')
    case Nil
    with Cons show ?thesis by simp
  next
    case (Cons y ys)
    with \<open>xs = x # xs'\<close> prun_strings[of "[JStr x]" "[]" y ys "[]"] show ?thesis by simp
  qed
qed

lemma JSON_parse_string_array:
  "JSON_parse (JSON_stringify (JArr (map JStr xs))) = Inr (JArr (map JStr xs))"
  by (simp only: JSON_parse_def tokenize_string_array prun_string_array option.case pstate.case)

lemma JSON_parse_empty_array: "JSON_parse ''[]'' = Inr (JArr [])"
  using JSON_parse_string_array[of "[]"] by simp

section \<open>Construction\<close>

text \<open>
  C7, as the code has it. The constructor fails exactly for the empty name and for a name
  with \<open>"\<close> or \<open>/\<close>, and then with one of its two name errors. Otherwise it returns an
  instance with no cached list, and the properties are those it was given, except that
  the index key holds \<open>[]\<close> when it had no entry or the empty text before: the test at
  line 31 is \<open>!getDynamicProperty(...)\<close>, which is true of the empty text too. An index
  entry with a text that is not empty stays.
\<close>

theorem constructor_spec:
  "((\<exists>e. constructor nm w = Inl e) \<longleftrightarrow> (nm = [] \<or> CHR 0x22 \<in> set nm \<or> CHR ''/'' \<in> set nm)) \<and>
   (\<forall>e. constructor nm w = Inl e \<longrightarrow> e = EmptyName \<or> e = InvalidNameChars) \<and>
   (\<forall>s. constructor nm w = Inr s \<longrightarrow>
      name s = nm \<and> pointerKey s = nm @ ''/pointers'' \<and> cachedPointers s = None \<and>
      (w (nm @ ''/pointers'') = None \<or> w (nm @ ''/pointers'') = Some [] \<longrightarrow>
         world s = w(nm @ ''/pointers'' \<mapsto> ''[]'')) \<and>
      (w (nm @ ''/pointers'') \<noteq> None \<and> w (nm @ ''/pointers'') \<noteq> Some [] \<longrightarrow> world s = w))"
  by (auto simp: constructor_def falsy_def Let_def)

theorem constructor_spec_witness:
  "constructor [] Map.empty = Inl EmptyName \<and>
   constructor ''a/b'' Map.empty = Inl InvalidNameChars \<and>
   constructor [CHR ''a'', CHR 0x22, CHR ''b''] Map.empty = Inl InvalidNameChars \<and>
   (\<exists>s. constructor ''validName123'' Map.empty = Inr s \<and>
        world s = [''validName123/pointers'' \<mapsto> ''[]'']) \<and>
   (\<exists>s. constructor ''db'' [''db/pointers'' \<mapsto> ''[1]''] = Inr s \<and>
        world s = [''db/pointers'' \<mapsto> ''[1]''])"
proof -
  have a: "constructor [] Map.empty = Inl EmptyName"
    and b: "constructor ''a/b'' Map.empty = Inl InvalidNameChars"
    and c: "constructor [CHR ''a'', CHR 0x22, CHR ''b''] Map.empty = Inl InvalidNameChars"
    by (simp_all add: constructor_def)
  obtain s where s: "constructor ''validName123'' Map.empty = Inr s"
    by (simp add: constructor_def Let_def)
  obtain s' where s': "constructor ''db'' [''db/pointers'' \<mapsto> ''[1]''] = Inr s'"
    by (simp add: constructor_def Let_def)
  have "world s = [''validName123/pointers'' \<mapsto> ''[]'']"
    using constructor_spec[of "''validName123''" Map.empty, THEN conjunct2, THEN conjunct2,
        rule_format, OF s]
    by simp
  moreover have "world s' = [''db/pointers'' \<mapsto> ''[1]'']"
    using constructor_spec[of "''db''" "[''db/pointers'' \<mapsto> ''[1]'']", THEN conjunct2,
        THEN conjunct2, rule_format, OF s']
    by simp
  ultimately show ?thesis using a b c s s' by simp
qed

text \<open>
  C7 as the specification states it, with an existing index entry left unchanged, fails
  for an entry that holds the empty text.
\<close>

theorem constructor_replaces_empty_index:
  "[''db/pointers'' \<mapsto> []] ''db/pointers'' = Some [] \<and>
   map_sum id (\<lambda>s. world s ''db/pointers'') (constructor ''db'' [''db/pointers'' \<mapsto> []])
     = Inr (Some ''[]'')"
  by (simp add: constructor_def falsy_def Let_def)

section \<open>Reading\<close>




section \<open>Running the model on given inputs\<close>

lemmas session_defs =
  then_set_def then_delete_def then_clear_def then_get_def then_entries_def pointers_of_def
  lookup_def reopen_def

text \<open>Decimal texts of literal numbers, for running the model on given inputs.\<close>

lemma toString_numeral:
  "toString (numeral k) =
     (if numeral k < (10::nat) then [digit_char (numeral k)]
      else toString (numeral k div 10) @ [digit_char (numeral k mod 10)])"
  by (rule toString.simps)

lemma toString_0: "toString 0 = ''0''"
  by (simp add: toString.simps digit_char_def)

lemma toString_1: "toString (Suc 0) = ''1''"
  by (simp add: toString.simps digit_char_def)

lemmas run_defs =
  constructor_def falsy_def or_empty_def getPointers_def cached_def setPointers_def set_value_def
  delete_def get_def clear_def entries_def erase_entry_def write_entry_def chunkCount_of_def
  maxChunkSize_def partKey_def last_segment_def JSON_parse_def
  JSON_quote_def quote_char_def is_ws_def isDigits_def is_digit_def parseInt_def digits_value_def
  digit_val_def number_body_def literal_def toString_numeral toString_0 toString_1 digit_char_def
  Let_def to_cache_def includes_key_def filter_key_def push_key_def to_double_exact
  erase_parts_ends read_parts_ends

lemma concat_map_Nil: "concat (map (\<lambda>i. []) xs) = []"
  by (induction xs) simp_all

lemma fresh_db_constructed: "constructor ''db'' Map.empty = Inr fresh_db"
  by (simp add: constructor_def fresh_db_def falsy_def Let_def)

lemma fresh_db_pointers:
  "getPointers fresh_db = Inr (JArr (map JStr []), fresh_db\<lparr>cachedPointers := Some (JArr [])\<rparr>)"
  by (simp add: fresh_db_def run_defs)

text \<open>The entry that \<open>set("k", 1e20)\<close> leaves reads as a chunk count above \<open>2 ^ 53\<close>.\<close>

lemma count_1e20: "2 ^ 53 < parseInt ''100000000000000000000''"
proof -
  have "digits_value ''100000000000000000000'' = 100000000000000000000"
    by (simp add: digits_value_def digit_val_def)
  then show ?thesis
    using to_double_above[of 100000000000000000000] by (simp add: parseInt_def)
qed

lemma db_k_1e20_built:
  "then_set (constructor ''db'' Map.empty) ''k'' (JNum 100000000000000000000) = Inr db_k_1e20"
  unfolding session_defs db_k_1e20_def
  by (simp add: run_defs)

lemma db_k_1e20_pointers: "getPointers db_k_1e20 = Inr (JArr (map JStr [''db/k'']), db_k_1e20)"
  by (simp add: getPointers_def cached_def db_k_1e20_def)

lemma db_k_1e20_loop: "\<not> loop_ends (world db_k_1e20 ''db/k'')"
  using count_1e20 by (simp add: loop_ends_def db_k_1e20_def or_empty_def isDigits_def is_digit_def)

lemma db_k_1e20_set: "set_value ''k'' v db_k_1e20 = Inl NeverReturns"
  by (rule set_value_never[OF db_k_1e20_pointers])
     (use db_k_1e20_loop in \<open>simp_all add: db_k_1e20_def\<close>)

lemma db_k_1e20_delete: "delete ''k'' db_k_1e20 = Inl NeverReturns"
  using delete_eq[OF db_k_1e20_pointers, of "''k''"] db_k_1e20_loop
  by (simp add: db_k_1e20_def)

lemma db_k_1e20_clear: "clear db_k_1e20 = Inl NeverReturns"
  using erase_entry_never[of "world db_k_1e20" "''db/k''"] db_k_1e20_loop
  by (simp add: clear_def db_k_1e20_pointers)

lemma db_k_1e20_get: "get ''k'' db_k_1e20 = Inl NeverReturns"
  using read_parts_never[OF count_1e20]
  by (simp add: get_def db_k_1e20_def falsy_def or_empty_def isDigits_def is_digit_def)

section \<open>The example databases with chunked entries\<close>

lemma big_text_length: "length big_text = 30002"
  by (simp add: big_text_def big_value_def JSON_quote_def length_concat quote_char_def comp_def)

lemma big_text_large: "maxChunkSize < length big_text"
  by (simp add: big_text_length maxChunkSize_def)

lemma big_text_chunks: "chunkCount_of big_text = 2"
  by (simp add: chunkCount_of_def big_text_length maxChunkSize_def)

lemma small_text_small: "length small_text \<le> maxChunkSize"
  by (simp add: small_text_def JSON_quote_def quote_char_def maxChunkSize_def)

lemma write_small_text: "write_entry k small_text w = w(k \<mapsto> small_text)"
  by (rule write_entry_small) (rule small_text_small)

lemma digits_2: "isDigits ''2''" "parseInt ''2'' = 2"
  by (simp_all add: isDigits_def is_digit_def parseInt_def digits_value_def digit_val_def
      to_double_exact)

lemma loop_ends_2: "loop_ends (Some ''2'')"
  by (simp add: loop_ends_def or_empty_def digits_2)

lemma db_big_built: "set_value ''k'' big_value fresh_db = Inr (False, db_big)"
proof -
  have "name fresh_db @ ''/'' @ ''k'' \<notin> set []" by simp
  from set_value_new[OF fresh_db_pointers this, of big_value]
  show ?thesis
    by (simp add: fresh_db_def db_big_def setPointers_def big_text_def to_cache_def)
qed

lemma db_big_pointers: "getPointers db_big = Inr (JArr (map JStr [''db/k'']), db_big)"
  by (simp add: getPointers_def cached_def db_big_def)

lemma db_mixed_built: "set_value ''m'' (JStr ''x'') db_big = Inr (False, db_mixed)"
proof -
  have "name db_big @ ''/'' @ ''m'' \<notin> set [''db/k'']" by (simp add: db_big_def)
  from set_value_new[OF db_big_pointers this, of "JStr ''x''"]
  show ?thesis
    by (simp add: db_big_def db_mixed_def setPointers_def small_text_def to_cache_def)
qed

lemma db_mixed_pointers:
  "getPointers db_mixed = Inr (JArr (map JStr [''db/k'', ''db/m'']), db_mixed)"
  by (simp add: getPointers_def cached_def db_mixed_def)

lemma db_big_marker: "world db_big ''db/k'' = Some ''2''"
  using write_entry_large_base[OF big_text_large, of "''db/k''" "[''db/pointers'' \<mapsto> ''[]'']"]
  by (simp add: db_big_def big_text_chunks toString_numeral digit_char_def)

lemma db_big_parts: "world db_big (partKey ''db/k'' i) \<noteq> None \<Longrightarrow> i < 2"
proof (rule ccontr)
  assume p: "world db_big (partKey ''db/k'' i) \<noteq> None" and "\<not> i < 2"
  then have "\<And>j. j < chunkCount_of big_text \<Longrightarrow> partKey ''db/k'' i \<noteq> partKey ''db/k'' j"
    by (auto simp: big_text_chunks dest: partKey_inj)
  from write_entry_large_other[OF big_text_large partKey_neq_base this,
      where w = "[''db/pointers'' \<mapsto> ''[]'']"]
  have "write_entry ''db/k'' big_text [''db/pointers'' \<mapsto> ''[]''] (partKey ''db/k'' i) = None"
    using partKey_neq_pointers[of "''db/k''" i "''db''"] by simp
  with p show False
    using partKey_neq_pointers[of "''db/k''" i "''db''"] by (simp add: db_big_def)
qed

lemma db_mixed_marker: "world db_mixed ''db/k'' = Some ''2''"
  using db_big_marker by (simp add: db_mixed_def write_small_text)

lemma db_mixed_direct: "world db_mixed ''db/m'' = Some small_text"
  by (simp add: db_mixed_def write_small_text)

lemma db_mixed_part: "i < 2 \<Longrightarrow>
    world db_mixed (partKey ''db/k'' i) = Some (take maxChunkSize (drop (i * maxChunkSize) big_text))"
  using write_entry_large_part[OF big_text_large, of i "''db/k''" "[''db/pointers'' \<mapsto> ''[]'']"]
    partKey_neq_pointers[of "''db/k''" i "''db''"]
  by (simp add: db_mixed_def db_big_def write_small_text big_text_chunks partKey_def)

lemma db_mixed_parts: "world db_mixed (partKey ''db/k'' i) \<noteq> None \<Longrightarrow> i < 2"
  using db_big_parts[of i] partKey_neq_pointers[of "''db/k''" i "''db''"]
  by (auto simp: db_mixed_def write_small_text partKey_def split: if_splits)

lemma loop_ends_small_text: "loop_ends (Some small_text)"
  by (simp add: loop_ends_def or_empty_def small_text_def JSON_quote_def isDigits_def is_digit_def)

lemma db_mixed_loop: "loop_ends (world db_mixed ''db/k'')" "loop_ends (world db_mixed ''db/m'')"
  by (simp_all add: db_mixed_marker loop_ends_2 db_mixed_direct loop_ends_small_text)

section \<open>What \<open>set\<close> returns\<close>

text \<open>
  C8, as the code has it, on an instance whose pointer list is an array of strings
  \<open>ps\<close>. If the entry key is not in \<open>ps\<close>, \<open>set\<close> returns \<open>false\<close>. If it is in \<open>ps\<close>,
  \<open>set\<close> first calls \<open>delete\<close>, and what happens turns on the text the entry holds. When
  that text reads as a chunk count above \<open>2 ^ 53\<close>, the loop over the parts does not end
  and \<open>set\<close> never returns. Otherwise \<open>set\<close> returns \<open>true\<close>. \<open>delete\<close> has then left a
  state \<open>s2\<close> in which the entry is gone (for a key other than \<open>pointers\<close>, whose entry
  key is the index key), every part that the old count names is gone, and the pointer
  list without the entry key is cached and persisted; and \<open>set\<close> has written the new
  text on top of \<open>s2\<close>: one chunk to the entry key, or the count to the entry key and the
  slices to the part keys, with nothing else changed and the cached list as \<open>delete\<close>
  left it.
\<close>

theorem set_value_returns_existed:
  assumes pk: "pointerKey s = name s @ ''/pointers''"
    and gp: "getPointers s = Inr (JArr (map JStr ps), s1)"
  shows
    "(name s @ ''/'' @ key \<notin> set ps \<longrightarrow> (\<exists>s'. set_value key v s = Inr (False, s'))) \<and>
     (name s @ ''/'' @ key \<in> set ps \<and> \<not> loop_ends (world s (name s @ ''/'' @ key)) \<longrightarrow>
        set_value key v s = Inl NeverReturns) \<and>
     (name s @ ''/'' @ key \<in> set ps \<and> loop_ends (world s (name s @ ''/'' @ key)) \<longrightarrow>
        (\<exists>s2 s'. delete key s = Inr s2 \<and> set_value key v s = Inr (True, s') \<and>
           (key \<noteq> ''pointers'' \<longrightarrow> world s2 (name s @ ''/'' @ key) = None) \<and>
           (\<forall>i. isDigits (or_empty (world s (name s @ ''/'' @ key))) \<and>
                i < parseInt (or_empty (world s (name s @ ''/'' @ key))) \<longrightarrow>
                world s2 (partKey (name s @ ''/'' @ key) i) = None) \<and>
           cachedPointers s2 =
             Some (JArr (map JStr (filter (\<lambda>ptr. ptr \<noteq> name s @ ''/'' @ key) ps))) \<and>
           world s2 (pointerKey s) =
             Some (JSON_stringify (JArr (map JStr (filter (\<lambda>ptr. ptr \<noteq> name s @ ''/'' @ key) ps)))) \<and>
           cachedPointers s' = cachedPointers s2 \<and>
           (length (JSON_stringify v) \<le> maxChunkSize \<longrightarrow>
              world s' = (world s2)(name s @ ''/'' @ key \<mapsto> JSON_stringify v)) \<and>
           (maxChunkSize < length (JSON_stringify v) \<longrightarrow>
              world s' (name s @ ''/'' @ key) = Some (toString (chunkCount_of (JSON_stringify v))) \<and>
              (\<forall>i < chunkCount_of (JSON_stringify v).
                 world s' (partKey (name s @ ''/'' @ key) i) =
                   Some (substring (JSON_stringify v) (i * maxChunkSize) ((i + 1) * maxChunkSize))) \<and>
              (\<forall>x. x \<noteq> name s @ ''/'' @ key \<and>
                   (\<forall>i < chunkCount_of (JSON_stringify v). x \<noteq> partKey (name s @ ''/'' @ key) i) \<longrightarrow>
                   world s' x = world s2 x))))"
proof (intro conjI impI)
  let ?dk = "name s @ ''/'' @ key"
  let ?t = "JSON_stringify v"
  assume "?dk \<notin> set ps"
  from set_value_new[OF gp this, of v] show "\<exists>s'. set_value key v s = Inr (False, s')"
    by blast
next
  let ?dk = "name s @ ''/'' @ key"
  assume "?dk \<in> set ps \<and> \<not> loop_ends (world s ?dk)"
  then show "set_value key v s = Inl NeverReturns"
    using set_value_never[OF gp, of key v] by blast
next
  let ?dk = "name s @ ''/'' @ key"
  let ?t = "JSON_stringify v"
  let ?ps' = "filter (\<lambda>ptr. ptr \<noteq> ?dk) ps"
  let ?w2 = "(erased ?dk (world s))(pointerKey s \<mapsto> JSON_stringify (JArr (map JStr ?ps')))"
  let ?s2 = "setPointers (JArr (map JStr ?ps')) (s1\<lparr>world := erased ?dk (world s)\<rparr>)"
  let ?s' = "s1\<lparr>cachedPointers := Some (JArr (map JStr ?ps')), world := write_entry ?dk ?t ?w2\<rparr>"
  assume a: "?dk \<in> set ps \<and> loop_ends (world s ?dk)"
  note f = getPointers_fields[OF gp]
  have w2: "world ?s2 = ?w2" by (simp add: setPointers_def f)
  have pt: "\<And>i. partKey ?dk i \<noteq> pointerKey s" using pk by (simp add: partKey_neq_pointers)
  have d: "delete key s = Inr ?s2"
    using delete_eq[OF gp, of key] a by simp
  have sv: "set_value key v s = Inr (True, ?s')"
    using set_value_overwrite[OF gp, of key v] a by simp
  have gone: "key \<noteq> ''pointers'' \<longrightarrow> world ?s2 ?dk = None"
    unfolding w2 using pk by (simp add: erased_base)
  have parts: "\<forall>i. isDigits (or_empty (world s ?dk)) \<and> i < parseInt (or_empty (world s ?dk)) \<longrightarrow>
                world ?s2 (partKey ?dk i) = None"
    unfolding w2 using pt by (simp add: erased_part)
  have c2: "cachedPointers ?s2 = Some (JArr (map JStr ?ps'))"
    by (simp add: setPointers_def to_cache_array)
  have p2: "world ?s2 (pointerKey s) = Some (JSON_stringify (JArr (map JStr ?ps')))"
    unfolding w2 by simp
  have c': "cachedPointers ?s' = cachedPointers ?s2"
    unfolding c2 by simp
  have small: "length ?t \<le> maxChunkSize \<longrightarrow> world ?s' = (world ?s2)(?dk \<mapsto> ?t)"
    unfolding w2 by (simp add: write_entry_small)
  have large: "maxChunkSize < length ?t \<longrightarrow>
      world ?s' ?dk = Some (toString (chunkCount_of ?t)) \<and>
      (\<forall>i < chunkCount_of ?t.
         world ?s' (partKey ?dk i) = Some (substring ?t (i * maxChunkSize) ((i + 1) * maxChunkSize))) \<and>
      (\<forall>x. x \<noteq> ?dk \<and> (\<forall>i < chunkCount_of ?t. x \<noteq> partKey ?dk i) \<longrightarrow>
           world ?s' x = world ?s2 x)"
  proof
    assume big: "maxChunkSize < length ?t"
    have b: "world ?s' ?dk = Some (toString (chunkCount_of ?t))"
      using write_entry_large_base[OF big, of ?dk ?w2] by simp
    have p: "\<forall>i < chunkCount_of ?t.
         world ?s' (partKey ?dk i) = Some (substring ?t (i * maxChunkSize) ((i + 1) * maxChunkSize))"
      using write_entry_large_part[OF big, of _ ?dk ?w2] substring_chunk[of ?t _ maxChunkSize]
      by simp
    have o: "\<forall>x. x \<noteq> ?dk \<and> (\<forall>i < chunkCount_of ?t. x \<noteq> partKey ?dk i) \<longrightarrow>
           world ?s' x = world ?s2 x"
      unfolding w2 using write_entry_large_other[OF big, where w = ?w2 and k = ?dk]
      by simp
    from b p o show "world ?s' ?dk = Some (toString (chunkCount_of ?t)) \<and>
      (\<forall>i < chunkCount_of ?t.
         world ?s' (partKey ?dk i) = Some (substring ?t (i * maxChunkSize) ((i + 1) * maxChunkSize))) \<and>
      (\<forall>x. x \<noteq> ?dk \<and> (\<forall>i < chunkCount_of ?t. x \<noteq> partKey ?dk i) \<longrightarrow>
           world ?s' x = world ?s2 x)"
      by (intro conjI)
  qed
  show "\<exists>s2 s'. delete key s = Inr s2 \<and> set_value key v s = Inr (True, s') \<and>
           (key \<noteq> ''pointers'' \<longrightarrow> world s2 ?dk = None) \<and>
           (\<forall>i. isDigits (or_empty (world s ?dk)) \<and> i < parseInt (or_empty (world s ?dk)) \<longrightarrow>
                world s2 (partKey ?dk i) = None) \<and>
           cachedPointers s2 = Some (JArr (map JStr ?ps')) \<and>
           world s2 (pointerKey s) = Some (JSON_stringify (JArr (map JStr ?ps'))) \<and>
           cachedPointers s' = cachedPointers s2 \<and>
           (length ?t \<le> maxChunkSize \<longrightarrow> world s' = (world s2)(?dk \<mapsto> ?t)) \<and>
           (maxChunkSize < length ?t \<longrightarrow>
              world s' ?dk = Some (toString (chunkCount_of ?t)) \<and>
              (\<forall>i < chunkCount_of ?t.
                 world s' (partKey ?dk i) =
                   Some (substring ?t (i * maxChunkSize) ((i + 1) * maxChunkSize))) \<and>
              (\<forall>x. x \<noteq> ?dk \<and> (\<forall>i < chunkCount_of ?t. x \<noteq> partKey ?dk i) \<longrightarrow>
                   world s' x = world s2 x))"
    by (rule exI[of _ ?s2], rule exI[of _ ?s'], intro conjI; fact)
qed

theorem set_value_returns_existed_witness:
  "getPointers db_mixed = Inr (JArr (map JStr [''db/k'', ''db/m'']), db_mixed) \<and>
   world db_mixed ''db/k'' = Some ''2'' \<and>
   world db_mixed (partKey ''db/k'' 0) \<noteq> None \<and>
   world db_mixed (partKey ''db/k'' 1) \<noteq> None \<and>
   (\<exists>s2 s'. delete ''k'' db_mixed = Inr s2 \<and>
      set_value ''k'' (JStr ''x'') db_mixed = Inr (True, s') \<and>
      world s2 ''db/k'' = None \<and>
      world s2 (partKey ''db/k'' 0) = None \<and>
      world s2 (partKey ''db/k'' 1) = None \<and>
      cachedPointers s2 = Some (JArr [JStr ''db/m'']) \<and>
      world s2 ''db/pointers'' = Some (JSON_stringify (JArr [JStr ''db/m''])) \<and>
      cachedPointers s' = Some (JArr [JStr ''db/m'']) \<and>
      world s' = (world s2)(''db/k'' \<mapsto> small_text)) \<and>
   (\<exists>s2 s'. delete ''k'' db_mixed = Inr s2 \<and>
      set_value ''k'' big_value db_mixed = Inr (True, s') \<and>
      world s' ''db/k'' = Some ''2'' \<and>
      world s' (partKey ''db/k'' 1) = Some (substring big_text maxChunkSize (2 * maxChunkSize)) \<and>
      world s' ''db/m'' = world s2 ''db/m'') \<and>
   (\<exists>s'. set_value ''n'' (JStr ''x'') db_mixed = Inr (False, s')) \<and>
   getPointers db_k_1e20 = Inr (JArr (map JStr [''db/k'']), db_k_1e20) \<and>
   set_value ''k'' (JStr ''x'') db_k_1e20 = Inl NeverReturns"
proof -
  have pk: "pointerKey db_mixed = name db_mixed @ ''/pointers''"
    and dk: "name db_mixed @ ''/'' @ ''k'' = ''db/k''"
    and dn: "name db_mixed @ ''/'' @ ''n'' = ''db/n''"
    and pkv: "pointerKey db_mixed = ''db/pointers''"
    by (simp_all add: db_mixed_def)
  have h: "''db/k'' \<in> set [''db/k'', ''db/m''] \<and> loop_ends (world db_mixed ''db/k'')"
    by (simp add: db_mixed_loop)
  have key: "''k'' \<noteq> ''pointers''" by simp
  have ps': "filter (\<lambda>ptr. ptr \<noteq> ''db/k'') [''db/k'', ''db/m''] = [''db/m'']" by simp
  have old: "isDigits (or_empty (world db_mixed ''db/k'')) \<and>
             0 < parseInt (or_empty (world db_mixed ''db/k'')) \<and>
             1 < parseInt (or_empty (world db_mixed ''db/k''))"
    by (simp add: db_mixed_marker or_empty_def digits_2)
  have before: "world db_mixed (partKey ''db/k'' 0) \<noteq> None" "world db_mixed (partKey ''db/k'' 1) \<noteq> None"
    using db_mixed_part[of 0] db_mixed_part[of 1] by simp_all
  note t = set_value_returns_existed[OF pk db_mixed_pointers, of "''k''" "JStr ''x''",
      unfolded dk pkv ps', THEN conjunct2, THEN conjunct2, THEN mp, OF h]
  then obtain s2 s' where d: "delete ''k'' db_mixed = Inr s2"
    and sv: "set_value ''k'' (JStr ''x'') db_mixed = Inr (True, s')"
    and gone: "''k'' \<noteq> ''pointers'' \<longrightarrow> world s2 ''db/k'' = None"
    and parts: "\<forall>i. isDigits (or_empty (world db_mixed ''db/k'')) \<and>
                  i < parseInt (or_empty (world db_mixed ''db/k'')) \<longrightarrow>
                  world s2 (partKey ''db/k'' i) = None"
    and c2: "cachedPointers s2 = Some (JArr (map JStr [''db/m'']))"
    and p2: "world s2 ''db/pointers'' = Some (JSON_stringify (JArr (map JStr [''db/m''])))"
    and c': "cachedPointers s' = cachedPointers s2"
    and small: "length (JSON_stringify (JStr ''x'')) \<le> maxChunkSize \<longrightarrow>
                  world s' = (world s2)(''db/k'' \<mapsto> JSON_stringify (JStr ''x''))"
    by - (elim exE conjE, rule that; assumption)
  have first: "\<exists>s2 s'. delete ''k'' db_mixed = Inr s2 \<and>
      set_value ''k'' (JStr ''x'') db_mixed = Inr (True, s') \<and>
      world s2 ''db/k'' = None \<and>
      world s2 (partKey ''db/k'' 0) = None \<and>
      world s2 (partKey ''db/k'' 1) = None \<and>
      cachedPointers s2 = Some (JArr [JStr ''db/m'']) \<and>
      world s2 ''db/pointers'' = Some (JSON_stringify (JArr [JStr ''db/m''])) \<and>
      cachedPointers s' = Some (JArr [JStr ''db/m'']) \<and>
      world s' = (world s2)(''db/k'' \<mapsto> small_text)"
  proof (rule exI[of _ s2], rule exI[of _ s'], intro conjI)
    show "world s2 ''db/k'' = None" using gone[THEN mp, OF key] .
    show "world s2 (partKey ''db/k'' 0) = None"
      using parts[rule_format, of 0] old by simp
    show "world s2 (partKey ''db/k'' 1) = None"
      using parts[rule_format, of 1] old by simp
    show "cachedPointers s2 = Some (JArr [JStr ''db/m''])" using c2 by simp
    show "world s2 ''db/pointers'' = Some (JSON_stringify (JArr [JStr ''db/m'']))"
      using p2 by simp
    show "cachedPointers s' = Some (JArr [JStr ''db/m''])" using c' c2 by simp
    show "world s' = (world s2)(''db/k'' \<mapsto> small_text)"
      using small small_text_small by (simp add: small_text_def)
  qed (fact d sv)+
  have big: "maxChunkSize < length (JSON_stringify big_value)"
    using big_text_large by (simp add: big_text_def)
  note u = set_value_returns_existed[OF pk db_mixed_pointers, of "''k''" big_value,
      unfolded dk pkv ps', THEN conjunct2, THEN conjunct2, THEN mp, OF h]
  then obtain t2 t' where e: "delete ''k'' db_mixed = Inr t2"
    and tv: "set_value ''k'' big_value db_mixed = Inr (True, t')"
    and large: "maxChunkSize < length (JSON_stringify big_value) \<longrightarrow>
      world t' ''db/k'' = Some (toString (chunkCount_of (JSON_stringify big_value))) \<and>
      (\<forall>i < chunkCount_of (JSON_stringify big_value).
         world t' (partKey ''db/k'' i) =
           Some (substring (JSON_stringify big_value) (i * maxChunkSize) ((i + 1) * maxChunkSize))) \<and>
      (\<forall>x. x \<noteq> ''db/k'' \<and>
           (\<forall>i < chunkCount_of (JSON_stringify big_value). x \<noteq> partKey ''db/k'' i) \<longrightarrow>
           world t' x = world t2 x)"
    by - (elim exE conjE, rule that; assumption)
  note l = large[THEN mp, OF big, folded big_text_def]
  note l1 = l[THEN conjunct1] and l2 = l[THEN conjunct2, THEN conjunct1]
    and l3 = l[THEN conjunct2, THEN conjunct2]
  have second: "\<exists>s2 s'. delete ''k'' db_mixed = Inr s2 \<and>
      set_value ''k'' big_value db_mixed = Inr (True, s') \<and>
      world s' ''db/k'' = Some ''2'' \<and>
      world s' (partKey ''db/k'' 1) = Some (substring big_text maxChunkSize (2 * maxChunkSize)) \<and>
      world s' ''db/m'' = world s2 ''db/m''"
  proof (rule exI[of _ t2], rule exI[of _ t'], intro conjI)
    show "world t' ''db/k'' = Some ''2''"
      using l1 by (simp add: big_text_chunks toString_numeral digit_char_def)
    show "world t' (partKey ''db/k'' 1) = Some (substring big_text maxChunkSize (2 * maxChunkSize))"
      using l2[rule_format, of 1] unfolding mult_2 by (simp add: big_text_chunks)
    have "''db/m'' \<noteq> ''db/k'' \<and> (\<forall>i < chunkCount_of big_text. ''db/m'' \<noteq> partKey ''db/k'' i)"
      by (simp add: partKey_def)
    from l3[rule_format, OF this] show "world t' ''db/m'' = world t2 ''db/m''" .
  qed (fact e tv)+
  have absent: "name db_mixed @ ''/'' @ ''n'' \<notin> set [''db/k'', ''db/m'']"
    by (simp add: db_mixed_def)
  from set_value_returns_existed[OF pk db_mixed_pointers, of "''n''" "JStr ''x''",
      THEN conjunct1, THEN mp, OF absent]
  have third: "\<exists>s'. set_value ''n'' (JStr ''x'') db_mixed = Inr (False, s')" .
  have pk': "pointerKey db_k_1e20 = name db_k_1e20 @ ''/pointers''"
    by (simp add: db_k_1e20_def)
  have n: "name db_k_1e20 @ ''/'' @ ''k'' \<in> set [''db/k''] \<and>
           \<not> loop_ends (world db_k_1e20 (name db_k_1e20 @ ''/'' @ ''k''))"
    using db_k_1e20_loop by (simp add: db_k_1e20_def)
  from set_value_returns_existed[OF pk' db_k_1e20_pointers, of "''k''" "JStr ''x''",
      THEN conjunct2, THEN conjunct1, THEN mp, OF n]
  have fourth: "set_value ''k'' (JStr ''x'') db_k_1e20 = Inl NeverReturns" .
  from db_mixed_pointers db_mixed_marker before first second third db_k_1e20_pointers fourth
  show ?thesis by (intro conjI)
qed

text \<open>
  C8 as the specification states it, for every key on every instance, fails in three
  ways. (1) On a new database \<open>db\<close> after \<open>set("k", 1e20)\<close> the entry key is in the
  pointer list and the entry holds the 21 digits of the number; a second \<open>set\<close> of the
  key \<open>k\<close> never returns. (2) After \<open>set("pointers", 5)\<close> twice the index key holds the
  text \<open>5\<close>; on a new instance of the same name the pointer list loads as the number
  5, and \<open>set("k", "x")\<close> throws a \<open>TypeError\<close> instead of returning \<open>false\<close>. (3) With
  the key \<open>pointers\<close> in the pointer list, the entry key is the index key, and the state
  that \<open>delete("pointers")\<close> leaves has an entry there, the text \<open>[]\<close> of the pointer
  list.
\<close>

theorem set_fails_to_return:
  "then_set (constructor ''db'' Map.empty) ''k'' (JNum 100000000000000000000) = Inr db_k_1e20 \<and>
   cachedPointers db_k_1e20 = Some (JArr [JStr ''db/k'']) \<and>
   world db_k_1e20 ''db/k'' = Some ''100000000000000000000'' \<and>
   set_value ''k'' (JStr ''x'') db_k_1e20 = Inl NeverReturns \<and>
   lookup db_pointers_5 ''db/pointers'' = Inr (Some ''5'') \<and>
   then_set (reopen db_pointers_5) ''k'' (JStr ''x'') = Inl TypeError \<and>
   pointers_of db_pointers_key = Inr (Some (JArr [JStr ''db/pointers''])) \<and>
   lookup (then_delete db_pointers_key ''pointers'') ''db/pointers'' = Inr (Some ''[]'')"
proof -
  have a: "cachedPointers db_k_1e20 = Some (JArr [JStr ''db/k'']) \<and>
   world db_k_1e20 ''db/k'' = Some ''100000000000000000000''"
    by (simp add: db_k_1e20_def)
  have b: "lookup db_pointers_5 ''db/pointers'' = Inr (Some ''5'') \<and>
   then_set (reopen db_pointers_5) ''k'' (JStr ''x'') = Inl TypeError"
    unfolding db_pointers_5_def session_defs
    by (simp add: run_defs)
  have c: "pointers_of db_pointers_key = Inr (Some (JArr [JStr ''db/pointers''])) \<and>
   lookup (then_delete db_pointers_key ''pointers'') ''db/pointers'' = Inr (Some ''[]'')"
    unfolding db_pointers_key_def session_defs
    by (simp add: run_defs)
  from db_k_1e20_built a db_k_1e20_set[of "JStr ''x''"] b c show ?thesis by (intro conjI) simp_all
qed

section \<open>Overwriting a key\<close>

text \<open>
  C10 asks that overwriting moves the entry key to the end of the pointer list. The code
  removes it and does not put it back: after \<open>new OptimizedDatabaseV1("rc1")\<close>,
  \<open>set("pos", [1,2,3])\<close> and \<open>set("pos", [9,9,9])\<close> the cached and the persisted list are
  empty and \<open>entries()\<close> returns nothing, while the entry itself holds the new value.
  The run with the pointer arrays as objects (\<open>o_rc1_twice\<close>) ends in the same state.
\<close>

theorem overwrite_drops_pointer:
  "map_sum id view o_rc1_twice = rc1_twice \<and>
   pointers_of rc1_twice = Inr (Some (JArr [])) \<and>
   lookup rc1_twice ''rc1/pointers'' = Inr (Some ''[]'') \<and>
   lookup rc1_twice ''rc1/pos'' = Inr (Some ''[9,9,9]'') \<and>
   then_entries rc1_twice = Inr []"
proof -
  have "pointers_of rc1_twice = Inr (Some (JArr [])) \<and>
   lookup rc1_twice ''rc1/pointers'' = Inr (Some ''[]'') \<and>
   lookup rc1_twice ''rc1/pos'' = Inr (Some ''[9,9,9]'') \<and>
   then_entries rc1_twice = Inr []"
    unfolding rc1_twice_def session_defs
    by (simp add: run_defs)
  with rc1_twice_objects show ?thesis by (rule conjI)
qed

section \<open>Writing a value and reading it back\<close>

lemma JSON_stringify_not_Nil: "JSON_stringify v \<noteq> []"
  by (cases v) (simp_all add: toString_not_Nil JSON_quote_def)

lemma JSON_parse_string: "JSON_parse (JSON_stringify (JStr x)) = Inr (JStr x)"
  using tokenize_quote[of x "[]"] by (simp add: JSON_parse_def)

lemma not_digits_string: "\<not> isDigits (JSON_stringify (JStr x))"
  by (simp add: isDigits_def JSON_quote_def is_digit_def)

lemma chunkCount_le_length: "chunkCount_of t \<le> length t"
proof (cases "t = []")
  case True
  then show ?thesis by (simp add: chunkCount_of_def maxChunkSize_def)
next
  case False
  then have pos: "0 < length t" by simp
  have "length t \<le> length t * maxChunkSize" using maxChunkSize_pos by simp
  with pos have "length t + maxChunkSize - 1 < length t * maxChunkSize + maxChunkSize"
    using maxChunkSize_pos by linarith
  moreover have "(length t + 1) * maxChunkSize = length t * maxChunkSize + maxChunkSize"
    by simp
  ultimately have "length t + maxChunkSize - 1 < (length t + 1) * maxChunkSize"
    by (simp only:)
  then have "(length t + maxChunkSize - 1) div maxChunkSize < length t + 1"
    by (rule less_mult_imp_div_less)
  then show ?thesis by (simp add: chunkCount_of_def)
qed

lemma get_written:
  assumes base: "world s (name s @ ''/'' @ key) = write_entry (name s @ ''/'' @ key) t w (name s @ ''/'' @ key)"
    and parts: "\<And>i. world s (partKey (name s @ ''/'' @ key) i) =
                  write_entry (name s @ ''/'' @ key) t w (partKey (name s @ ''/'' @ key) i)"
    and ne: "t \<noteq> []"
    and nd: "\<not> isDigits t"
    and cc: "chunkCount_of t \<le> 2 ^ 53"
  shows "get key s = map_sum id Some (JSON_parse t)"
proof (cases "length t \<le> maxChunkSize")
  case True
  with base have "world s (name s @ ''/'' @ key) = Some t"
    by (simp add: write_entry_small)
  with ne nd show ?thesis
    by (simp add: get_def falsy_def or_empty_def)
next
  case False
  then have big: "maxChunkSize < length t" by simp
  let ?n = "chunkCount_of t"
  let ?dk = "name s @ ''/'' @ key"
  from base big have m: "world s ?dk = Some (toString ?n)"
    by (simp add: write_entry_large_base)
  have "map (\<lambda>i. or_empty (world s (partKey ?dk i))) [0..<?n] =
        map (\<lambda>i. take maxChunkSize (drop (i * maxChunkSize) t)) [0..<?n]"
    using parts big by (intro map_cong) (simp_all add: write_entry_large_part or_empty_def)
  then have "concat (map (\<lambda>i. or_empty (world s (partKey ?dk i))) [0..<?n]) =
        concat (map (\<lambda>i. take maxChunkSize (drop (i * maxChunkSize) t)) [0..<?n])"
    by (simp only:)
  also have "\<dots> = take (?n * maxChunkSize) t"
    by (rule concat_chunks)
  also have "\<dots> = t"
    using chunkCount_covers[of t] by simp
  finally have "concat (map (\<lambda>i. or_empty (world s (partKey ?dk i))) [0..<?n]) = t" .
  with read_parts_ends[OF cc, of ?dk "world s"]
  have "read_parts ?dk (world s) ?n 0 [] = Some t" by simp
  with m show ?thesis
    by (simp add: get_def falsy_def or_empty_def toString_not_Nil isDigits_toString
        parseInt_toString[OF cc])
qed

text \<open>
  C1, as the code has it. On an instance whose pointer list is an array of strings, for
  a key other than \<open>pointers\<close> and a value whose JSON text is not made of digits only
  (and is a host string, which has fewer than \<open>2 ^ 53\<close> characters), \<open>set\<close> followed by
  \<open>get\<close> returns the value, whether the text fits one chunk or not; provided that, when
  the entry key is in the pointer list already, the text the entry holds does not read
  as a chunk count above \<open>2 ^ 53\<close>. The entry key of the key \<open>pointers\<close> is the index key,
  where \<open>set\<close> persists the pointer list. A text of digits only (a non-negative
  integer) is what the storage format keeps for a chunk count, and \<open>get\<close> reads it as
  one. The last premise is the round trip of the host's JSON functions on the value.
\<close>

theorem set_then_get:
  assumes pk: "pointerKey s = name s @ ''/pointers''"
    and key: "key \<noteq> ''pointers''"
    and gp: "getPointers s = Inr (JArr (map JStr ps), s1)"
    and ends: "name s @ ''/'' @ key \<in> set ps \<longrightarrow> loop_ends (world s (name s @ ''/'' @ key))"
    and nd: "\<not> isDigits (JSON_stringify v)"
    and len: "length (JSON_stringify v) < 2 ^ 53"
    and rt: "JSON_parse (JSON_stringify v) = Inr v"
  shows "\<exists>b s'. set_value key v s = Inr (b, s') \<and> get key s' = Inr (Some v)"
proof -
  let ?dk = "name s @ ''/'' @ key"
  let ?t = "JSON_stringify v"
  note f = getPointers_fields[OF gp]
  have cc: "chunkCount_of ?t \<le> 2 ^ 53"
    using chunkCount_le_length[of ?t] len by linarith
  have dk: "?dk \<noteq> pointerKey s" using key pk by simp
  have pt: "\<And>i. partKey ?dk i \<noteq> pointerKey s" using pk by (simp add: partKey_neq_pointers)
  show ?thesis
  proof (cases "?dk \<in> set ps")
    case True
    let ?ps' = "filter (\<lambda>ptr. ptr \<noteq> ?dk) ps"
    let ?s' = "s1\<lparr>cachedPointers := Some (JArr (map JStr ?ps')),
          world := write_entry ?dk ?t
            ((erased ?dk (world s))(pointerKey s \<mapsto> JSON_stringify (JArr (map JStr ?ps'))))\<rparr>"
    from ends True have e: "loop_ends (world s ?dk)" by simp
    have sv: "set_value key v s = Inr (True, ?s')"
      using set_value_overwrite[OF gp True e] .
    have "get key ?s' = map_sum id Some (JSON_parse ?t)"
      by (rule get_written[where w = "(erased ?dk (world s))
               (pointerKey s \<mapsto> JSON_stringify (JArr (map JStr ?ps')))"])
         (use cc in \<open>simp_all add: f JSON_stringify_not_Nil nd\<close>)
    then have "get key ?s' = Inr (Some v)" by (simp only: rt map_sum.simps)
    with sv show ?thesis by blast
  next
    case False
    let ?s' = "setPointers (JArr (map JStr (ps @ [?dk])))
                 (s1\<lparr>world := write_entry ?dk ?t (world s)\<rparr>)"
    have sv: "set_value key v s = Inr (False, ?s')"
      using set_value_new[OF gp False] .
    have "get key ?s' = map_sum id Some (JSON_parse ?t)"
      by (rule get_written[where w = "world s"])
         (use dk pt cc in \<open>simp_all add: f JSON_stringify_not_Nil nd setPointers_def\<close>)
    then have "get key ?s' = Inr (Some v)" by (simp only: rt map_sum.simps)
    with sv show ?thesis by blast
  qed
qed

theorem set_then_get_witness:
  "(\<exists>b s'. set_value ''k'' (JStr ''small'') fresh_db = Inr (b, s') \<and>
            get ''k'' s' = Inr (Some (JStr ''small''))) \<and>
   maxChunkSize < length (JSON_stringify (JStr (replicate 30000 (CHR ''a'')))) \<and>
   (\<exists>b s'. set_value ''k'' (JStr (replicate 30000 (CHR ''a''))) fresh_db = Inr (b, s') \<and>
            get ''k'' s' = Inr (Some (JStr (replicate 30000 (CHR ''a''))))) \<and>
   cachedPointers db_mixed = Some (JArr [JStr ''db/k'', JStr ''db/m'']) \<and>
   world db_mixed ''db/k'' = Some ''2'' \<and>
   (\<exists>b s'. set_value ''k'' (JStr ''small'') db_mixed = Inr (b, s') \<and>
            get ''k'' s' = Inr (Some (JStr ''small'')))"
proof -
  have pk: "pointerKey fresh_db = name fresh_db @ ''/pointers''"
    by (simp add: fresh_db_def)
  have key: "''k'' \<noteq> ''pointers''" by simp
  have big: "maxChunkSize < length (JSON_stringify (JStr (replicate 30000 (CHR ''a''))))"
    by (simp add: JSON_quote_def maxChunkSize_def length_concat quote_char_def comp_def)
  have e: "name fresh_db @ ''/'' @ ''k'' \<in> set [] \<longrightarrow>
           loop_ends (world fresh_db (name fresh_db @ ''/'' @ ''k''))" by simp
  have c1: "length (JSON_stringify (JStr ''small'')) < 2 ^ 53"
    by (simp add: JSON_quote_def quote_char_def)
  have c2: "length (JSON_stringify (JStr (replicate 30000 (CHR ''a'')))) < 2 ^ 53"
    using big_text_length by (simp add: big_text_def big_value_def)
  have pk': "pointerKey db_mixed = name db_mixed @ ''/pointers''"
    by (simp add: db_mixed_def)
  have e': "name db_mixed @ ''/'' @ ''k'' \<in> set [''db/k'', ''db/m''] \<longrightarrow>
           loop_ends (world db_mixed (name db_mixed @ ''/'' @ ''k''))"
    using db_mixed_loop by (simp add: db_mixed_def)
  have c: "cachedPointers db_mixed = Some (JArr [JStr ''db/k'', JStr ''db/m''])"
    by (simp add: db_mixed_def)
  from set_then_get[OF pk key fresh_db_pointers e not_digits_string c1 JSON_parse_string]
    set_then_get[OF pk key fresh_db_pointers e not_digits_string c2 JSON_parse_string]
    set_then_get[OF pk' key db_mixed_pointers e' not_digits_string c1 JSON_parse_string]
    big c db_mixed_marker
  show ?thesis by (intro conjI)
qed

text \<open>
  C1 as the specification states it, for every key and every value on every instance,
  fails in four ways. (1) On a new database \<open>db\<close>, after \<open>set("pointers", "x")\<close>,
  \<open>get("pointers")\<close> returns the pointer list \<open>["db/pointers"]\<close>. (2) After \<open>set("k", 42)\<close>
  the entry holds the text \<open>42\<close>; \<open>get("k")\<close> takes it for a chunk count, finds no parts
  and hands the empty text to \<open>JSON.parse\<close>, which throws. (3) After \<open>set("pointers", 5)\<close>
  twice the index key holds the text \<open>5\<close>; on a new instance of the same name the
  pointer list loads as the number 5, and \<open>set("k", "x")\<close> throws a \<open>TypeError\<close>. (4)
  After \<open>set("k", 1e20)\<close> the entry of \<open>k\<close> reads as a chunk count above \<open>2 ^ 53\<close>, and
  \<open>set("k", "x")\<close> never returns.
\<close>

theorem set_then_get_fails:
  "then_get db_pointers_key ''pointers'' = Inr (Some (JArr [JStr ''db/pointers''])) \<and>
   then_get db_pointers_key ''pointers'' \<noteq> Inr (Some (JStr ''x'')) \<and>
   lookup db_k_42 ''db/k'' = Inr (Some ''42'') \<and>
   then_get db_k_42 ''k'' = Inl SyntaxError \<and>
   lookup db_pointers_5 ''db/pointers'' = Inr (Some ''5'') \<and>
   then_set (reopen db_pointers_5) ''k'' (JStr ''x'') = Inl TypeError \<and>
   then_set (constructor ''db'' Map.empty) ''k'' (JNum 100000000000000000000) = Inr db_k_1e20 \<and>
   then_set (Inr db_k_1e20) ''k'' (JStr ''x'') = Inl NeverReturns"
proof -
  have a: "then_get db_pointers_key ''pointers'' = Inr (Some (JArr [JStr ''db/pointers''])) \<and>
   then_get db_pointers_key ''pointers'' \<noteq> Inr (Some (JStr ''x'')) \<and>
   lookup db_k_42 ''db/k'' = Inr (Some ''42'') \<and>
   then_get db_k_42 ''k'' = Inl SyntaxError"
    unfolding db_pointers_key_def db_k_42_def session_defs
    by (simp add: run_defs concat_map_Nil)
  have b: "lookup db_pointers_5 ''db/pointers'' = Inr (Some ''5'') \<and>
   then_set (reopen db_pointers_5) ''k'' (JStr ''x'') = Inl TypeError"
    unfolding db_pointers_5_def session_defs
    by (simp add: run_defs)
  have c: "then_set (Inr db_k_1e20) ''k'' (JStr ''x'') = Inl NeverReturns"
    by (simp add: then_set_def db_k_1e20_set)
  from a b db_k_1e20_built c show ?thesis by (intro conjI) simp_all
qed

section \<open>Deleting a key\<close>

lemma entries_of_keys:
  "entries_of s (map JStr ps) = Inr r \<Longrightarrow> map fst r = map last_segment ps"
  by (induction ps arbitrary: r) (auto simp: Let_def split: sum.splits)

lemma get_absent: "world s (name s @ ''/'' @ key) = None \<Longrightarrow> get key s = Inr None"
  by (simp add: get_def falsy_def Let_def)

lemma entries_cached:
  "cachedPointers s = Some (JArr vs) \<Longrightarrow> entries s = map_sum id (\<lambda>r. (r, s)) (entries_of s vs)"
  by (simp add: entries_def getPointers_def cached_def)

lemma persisted_text:
  "world s (pointerKey s) = Some (JSON_stringify (JArr (map JStr ps))) \<Longrightarrow>
     persisted s = Inr (JArr (map JStr ps))"
  using JSON_parse_string_array[of ps]
  by (simp add: persisted_def getPointers_def cached_def falsy_def or_empty_def)

text \<open>
  C4, as the code has it, on an instance whose pointer list is an array of strings. Let
  the entry key of a key other than \<open>pointers\<close> be in the pointer list, with an entry
  whose text does not read as a chunk count above \<open>2 ^ 53\<close>. Then \<open>delete\<close> returns, and
  after it: \<open>get\<close> answers \<open>undefined\<close>; the pointer list is the old one without the
  entry key, in the cache, at the index key, and as a new instance loads it;
  \<open>entries()\<close> has no pair with this key, provided no other pointer ends in \<open>/\<close> and
  the key (the key of a pair is what follows the last \<open>/\<close> of its pointer); the parts
  that the entry's chunk count names are gone; and no entry is left at any part key of
  the entry, provided every such entry was one that the chunk count names.
\<close>

theorem delete_complete:
  assumes pk: "pointerKey s = name s @ ''/pointers''"
    and gp: "getPointers s = Inr (JArr (map JStr ps), s1)"
    and present: "name s @ ''/'' @ key \<in> set ps"
    and key: "key \<noteq> ''pointers''"
    and ends: "loop_ends (world s (name s @ ''/'' @ key))"
  shows "\<exists>s'. delete key s = Inr s' \<and>
     get key s' = Inr None \<and>
     cachedPointers s' = Some (JArr (map JStr (filter (\<lambda>ptr. ptr \<noteq> name s @ ''/'' @ key) ps))) \<and>
     world s' (pointerKey s') =
       Some (JSON_stringify (JArr (map JStr (filter (\<lambda>ptr. ptr \<noteq> name s @ ''/'' @ key) ps)))) \<and>
     persisted s' = Inr (JArr (map JStr (filter (\<lambda>ptr. ptr \<noteq> name s @ ''/'' @ key) ps))) \<and>
     ((\<forall>p \<in> set ps. p \<noteq> name s @ ''/'' @ key \<longrightarrow> last_segment p \<noteq> key) \<longrightarrow>
        (\<forall>r s''. entries s' = Inr (r, s'') \<longrightarrow> key \<notin> fst ` set r)) \<and>
     (\<forall>i. isDigits (or_empty (world s (name s @ ''/'' @ key))) \<and>
          i < parseInt (or_empty (world s (name s @ ''/'' @ key))) \<longrightarrow>
          world s' (partKey (name s @ ''/'' @ key) i) = None) \<and>
     ((\<forall>i. world s (partKey (name s @ ''/'' @ key) i) \<noteq> None \<longrightarrow>
           isDigits (or_empty (world s (name s @ ''/'' @ key))) \<and>
           i < parseInt (or_empty (world s (name s @ ''/'' @ key)))) \<longrightarrow>
        (\<forall>i. world s' (partKey (name s @ ''/'' @ key) i) = None))"
proof -
  let ?dk = "name s @ ''/'' @ key"
  let ?ps' = "filter (\<lambda>ptr. ptr \<noteq> ?dk) ps"
  let ?s' = "setPointers (JArr (map JStr ?ps')) (s1\<lparr>world := erased ?dk (world s)\<rparr>)"
  note f = getPointers_fields[OF gp]
  have d: "delete key s = Inr ?s'"
    using delete_eq[OF gp, of key] present ends by simp
  have dk: "?dk \<noteq> pointerKey s" using key pk by simp
  have pt: "\<And>i. partKey ?dk i \<noteq> pointerKey s" using pk by (simp add: partKey_neq_pointers)
  have nm: "name ?s' = name s" by (simp add: setPointers_def f)
  have base: "world ?s' ?dk = None"
    using dk by (simp add: setPointers_def f erased_base)
  have part: "world ?s' (partKey ?dk i) = erased ?dk (world s) (partKey ?dk i)" for i
    using pt[of i] by (simp add: setPointers_def f)
  have g: "get key ?s' = Inr None"
  proof (rule get_absent)
    show "world ?s' (name ?s' @ ''/'' @ key) = None"
      unfolding nm by (rule base)
  qed
  have c: "cachedPointers ?s' = Some (JArr (map JStr ?ps'))"
    by (simp add: setPointers_def to_cache_array)
  have w: "world ?s' (pointerKey ?s') = Some (JSON_stringify (JArr (map JStr ?ps')))"
    by (simp add: setPointers_def)
  have p: "persisted ?s' = Inr (JArr (map JStr ?ps'))"
    using w by (rule persisted_text)
  have e: "key \<notin> fst ` set r"
    if seg: "\<forall>p \<in> set ps. p \<noteq> ?dk \<longrightarrow> last_segment p \<noteq> key"
      and en: "entries ?s' = Inr (r, s'')" for r s''
  proof -
    from en have "entries_of ?s' (map JStr ?ps') = Inr r"
      unfolding entries_cached[OF c] by (cases "entries_of ?s' (map JStr ?ps')") simp_all
    then have "map fst r = map last_segment ?ps'" by (rule entries_of_keys)
    then have "fst ` set r = last_segment ` set ?ps'" by (metis set_map)
    with seg show ?thesis by auto
  qed
  have m: "world ?s' (partKey ?dk i) = None"
    if "isDigits (or_empty (world s ?dk))" "i < parseInt (or_empty (world s ?dk))" for i
    using that part[of i] by (simp add: erased_part)
  have a: "world ?s' (partKey ?dk i) = None"
    if h: "\<forall>i. world s (partKey ?dk i) \<noteq> None \<longrightarrow>
           isDigits (or_empty (world s ?dk)) \<and> i < parseInt (or_empty (world s ?dk))" for i
  proof (cases "world s (partKey ?dk i) = None")
    case True
    then show ?thesis using part[of i] by (simp add: erased_None)
  next
    case False
    with h show ?thesis using part[of i] by (simp add: erased_part)
  qed
  have e': "(\<forall>p \<in> set ps. p \<noteq> ?dk \<longrightarrow> last_segment p \<noteq> key) \<longrightarrow>
        (\<forall>r s''. entries ?s' = Inr (r, s'') \<longrightarrow> key \<notin> fst ` set r)"
    using e by blast
  have m': "\<forall>i. isDigits (or_empty (world s ?dk)) \<and> i < parseInt (or_empty (world s ?dk)) \<longrightarrow>
          world ?s' (partKey ?dk i) = None"
    using m by blast
  have a': "(\<forall>i. world s (partKey ?dk i) \<noteq> None \<longrightarrow>
           isDigits (or_empty (world s ?dk)) \<and> i < parseInt (or_empty (world s ?dk))) \<longrightarrow>
        (\<forall>i. world ?s' (partKey ?dk i) = None)"
    using a by blast
  show ?thesis
    by (rule exI[of _ ?s'], intro conjI; fact)
qed

theorem delete_complete_witness:
  "set_value ''k'' big_value fresh_db = Inr (False, db_big) \<and>
   set_value ''m'' (JStr ''x'') db_big = Inr (False, db_mixed) \<and>
   world db_mixed ''db/k'' = Some ''2'' \<and>
   world db_mixed (partKey ''db/k'' 1) \<noteq> None \<and>
   (\<exists>s'. delete ''k'' db_mixed = Inr s' \<and>
      get ''k'' s' = Inr None \<and>
      cachedPointers s' = Some (JArr [JStr ''db/m'']) \<and>
      world s' ''db/pointers'' = Some (JSON_stringify (JArr [JStr ''db/m''])) \<and>
      persisted s' = Inr (JArr [JStr ''db/m'']) \<and>
      (\<exists>r s''. entries s' = Inr (r, s'') \<and> ''k'' \<notin> fst ` set r) \<and>
      (\<forall>i. world s' (partKey ''db/k'' i) = None))"
proof -
  have pk: "pointerKey db_mixed = name db_mixed @ ''/pointers''"
    and dk: "name db_mixed @ ''/'' @ ''k'' = ''db/k''"
    and nm0: "name db_mixed = ''db''"
    by (simp_all add: db_mixed_def)
  have present: "name db_mixed @ ''/'' @ ''k'' \<in> set [''db/k'', ''db/m'']"
    unfolding dk by simp
  have key: "''k'' \<noteq> ''pointers''" by simp
  have ends: "loop_ends (world db_mixed (name db_mixed @ ''/'' @ ''k''))"
    unfolding dk by (rule db_mixed_loop)
  have ps': "filter (\<lambda>ptr. ptr \<noteq> ''db/k'') [''db/k'', ''db/m''] = [''db/m'']" by simp
  from delete_complete[OF pk db_mixed_pointers present key ends, unfolded dk ps']
  obtain s' where d: "delete ''k'' db_mixed = Inr s'"
    and g: "get ''k'' s' = Inr None"
    and c: "cachedPointers s' = Some (JArr (map JStr [''db/m'']))"
    and w: "world s' (pointerKey s') = Some (JSON_stringify (JArr (map JStr [''db/m''])))"
    and p: "persisted s' = Inr (JArr (map JStr [''db/m'']))"
    and e: "(\<forall>p \<in> set [''db/k'', ''db/m'']. p \<noteq> ''db/k'' \<longrightarrow> last_segment p \<noteq> ''k'') \<longrightarrow>
        (\<forall>r s''. entries s' = Inr (r, s'') \<longrightarrow> ''k'' \<notin> fst ` set r)"
    and a: "(\<forall>i. world db_mixed (partKey ''db/k'' i) \<noteq> None \<longrightarrow>
           isDigits (or_empty (world db_mixed ''db/k'')) \<and>
           i < parseInt (or_empty (world db_mixed ''db/k''))) \<longrightarrow>
        (\<forall>i. world s' (partKey ''db/k'' i) = None)"
    by - (elim exE conjE, rule that; assumption)
  have seg: "\<forall>p \<in> set [''db/k'', ''db/m'']. p \<noteq> ''db/k'' \<longrightarrow> last_segment p \<noteq> ''k''"
    by (simp add: last_segment_def)
  have counted: "\<forall>i. world db_mixed (partKey ''db/k'' i) \<noteq> None \<longrightarrow>
           isDigits (or_empty (world db_mixed ''db/k'')) \<and>
           i < parseInt (or_empty (world db_mixed ''db/k''))"
    using db_mixed_parts by (simp add: db_mixed_marker or_empty_def digits_2)
  have s'_eq: "s' = setPointers (JArr (map JStr [''db/m'']))
                      (db_mixed\<lparr>world := erased ''db/k'' (world db_mixed)\<rparr>)"
    using d delete_eq[OF db_mixed_pointers, of "''k''"] db_mixed_loop by (simp add: nm0)
  have nm: "name s' = ''db''" and pkv: "pointerKey s' = ''db/pointers''"
    by (simp_all add: s'_eq setPointers_def db_mixed_def)
  have en: "entries s' = Inr ([(''m'', Some (JStr ''x''))], s')"
  proof -
    have "erased ''db/k'' (world db_mixed) ''db/m'' = world db_mixed ''db/m''"
      by (rule erased_other) (simp_all add: partKey_def)
    then have "world s' ''db/m'' = Some small_text"
      by (simp add: s'_eq setPointers_def db_mixed_direct) (simp add: db_mixed_def)
    with nm have "get ''m'' s' = Inr (Some (JStr ''x''))"
      using JSON_parse_string[of "''x''"]
      by (simp add: get_def falsy_def or_empty_def isDigits_def is_digit_def JSON_quote_def
          small_text_def)
    then show ?thesis
      using c by (simp add: entries_cached[OF c] last_segment_def)
  qed
  have i1: "\<exists>r s''. entries s' = Inr (r, s'') \<and> ''k'' \<notin> fst ` set r"
    using en by simp
  have i2: "\<forall>i. world s' (partKey ''db/k'' i) = None"
    using a[THEN mp, OF counted] .
  have i3: "world db_mixed (partKey ''db/k'' 1) \<noteq> None"
    using db_mixed_part[of 1] by simp
  have i4: "world s' ''db/pointers'' = Some (JSON_stringify (JArr [JStr ''db/m'']))"
    using w by (simp add: pkv)
  have i5: "cachedPointers s' = Some (JArr [JStr ''db/m''])"
    and i6: "persisted s' = Inr (JArr [JStr ''db/m''])"
    using c p by simp_all
  have "\<exists>s'. delete ''k'' db_mixed = Inr s' \<and>
      get ''k'' s' = Inr None \<and>
      cachedPointers s' = Some (JArr [JStr ''db/m'']) \<and>
      world s' ''db/pointers'' = Some (JSON_stringify (JArr [JStr ''db/m''])) \<and>
      persisted s' = Inr (JArr [JStr ''db/m'']) \<and>
      (\<exists>r s''. entries s' = Inr (r, s'') \<and> ''k'' \<notin> fst ` set r) \<and>
      (\<forall>i. world s' (partKey ''db/k'' i) = None)"
    by (rule exI[of _ s'], intro conjI; fact)
  with db_big_built db_mixed_built db_mixed_marker i3 show ?thesis by (intro conjI)
qed

text \<open>
  C4 as the specification states it fails in four ways. (1) The key \<open>pointers\<close>: after
  \<open>delete("pointers")\<close>, \<open>get("pointers")\<close> returns the persisted pointer list. (2)
  With the keys \<open>k\<close> and \<open>a/k\<close> set, \<open>entries()\<close> after \<open>delete("k")\<close> has a pair with the key
  \<open>k\<close>, read off the pointer \<open>db/a/k\<close>. (3) With the keys \<open>k\<close> and \<open>k_part0\<close> set,
  \<open>delete("k")\<close> leaves the entry at part key 0 of \<open>db/k\<close>, which is the entry of
  \<open>k_part0\<close>. (4) After \<open>set("k", 1e20)\<close> the entry of \<open>k\<close> reads as a chunk count above
  \<open>2 ^ 53\<close>, and \<open>delete("k")\<close> never returns.
\<close>

theorem delete_leaves_traces:
  "pointers_of db_pointers_key = Inr (Some (JArr [JStr ''db/pointers''])) \<and>
   then_get (then_delete db_pointers_key ''pointers'') ''pointers'' = Inr (Some (JArr [])) \<and>
   pointers_of db_k_and_a_k = Inr (Some (JArr [JStr ''db/k'', JStr ''db/a/k''])) \<and>
   then_entries (then_delete db_k_and_a_k ''k'') = Inr [(''k'', None)] \<and>
   pointers_of db_k_and_k_part0 = Inr (Some (JArr [JStr ''db/k'', JStr ''db/k_part0''])) \<and>
   lookup (then_delete db_k_and_k_part0 ''k'') (partKey ''db/k'' 0) =
     Inr (Some (JSON_stringify (JStr ''w''))) \<and>
   then_set (constructor ''db'' Map.empty) ''k'' (JNum 100000000000000000000) = Inr db_k_1e20 \<and>
   pointers_of (Inr db_k_1e20) = Inr (Some (JArr [JStr ''db/k''])) \<and>
   then_delete (Inr db_k_1e20) ''k'' = Inl NeverReturns"
proof -
  have a: "pointers_of db_pointers_key = Inr (Some (JArr [JStr ''db/pointers''])) \<and>
   then_get (then_delete db_pointers_key ''pointers'') ''pointers'' = Inr (Some (JArr [])) \<and>
   pointers_of db_k_and_a_k = Inr (Some (JArr [JStr ''db/k'', JStr ''db/a/k''])) \<and>
   then_entries (then_delete db_k_and_a_k ''k'') = Inr [(''k'', None)] \<and>
   pointers_of db_k_and_k_part0 = Inr (Some (JArr [JStr ''db/k'', JStr ''db/k_part0''])) \<and>
   lookup (then_delete db_k_and_k_part0 ''k'') (partKey ''db/k'' 0) =
     Inr (Some (JSON_stringify (JStr ''w'')))"
    unfolding db_pointers_key_def db_k_and_a_k_def db_k_and_k_part0_def session_defs
    by (simp add: run_defs)
  have b: "pointers_of (Inr db_k_1e20) = Inr (Some (JArr [JStr ''db/k'']))"
    by (simp add: pointers_of_def db_k_1e20_def)
  have c: "then_delete (Inr db_k_1e20) ''k'' = Inl NeverReturns"
    by (simp add: then_delete_def db_k_1e20_delete)
  from a db_k_1e20_built b c show ?thesis by (intro conjI) simp_all
qed

section \<open>Clearing the database\<close>

lemma fold_erased_None: "w x = None \<Longrightarrow> fold erased ps w x = None"
  by (induction ps arbitrary: w) (simp_all add: erased_None)

lemma fold_erased_base: "p \<in> set ps \<Longrightarrow> fold erased ps w p = None"
proof (induction ps arbitrary: w)
  case Nil
  then show ?case by simp
next
  case (Cons q qs)
  show ?case
  proof (cases "p = q")
    case True
    then show ?thesis by (simp add: fold_erased_None erased_base)
  next
    case False
    with Cons show ?thesis by simp
  qed
qed

lemma fold_erased_parts:
  assumes "p \<in> set ps"
    and "isDigits (or_empty (w p))"
    and "i < parseInt (or_empty (w p))"
    and "\<forall>q \<in> set ps. \<forall>j. partKey q j \<notin> set ps"
  shows "fold erased ps w (partKey p i) = None"
  using assms
proof (induction ps arbitrary: w)
  case Nil
  then show ?case by simp
next
  case (Cons q qs)
  show ?case
  proof (cases "p = q")
    case True
    with Cons.prems show ?thesis
      by (simp add: fold_erased_None erased_part)
  next
    case False
    with Cons.prems have p: "p \<in> set qs" by simp
    have "\<And>j. p \<noteq> partKey q j" using Cons.prems(1,4) by auto
    with False have same: "erased q w p = w p" by (simp add: erased_other)
    have "fold erased qs (erased q w) (partKey p i) = None"
      using Cons.prems p by (intro Cons.IH) (simp_all add: same)
    then show ?thesis by simp
  qed
qed

text \<open>
  C5, as the code has it, on an instance whose pointer list is an array of strings, no
  pointer with an entry whose text reads as a chunk count above \<open>2 ^ 53\<close>. Then \<open>clear\<close>
  returns, and after it: the cached pointer list is empty, the index key holds \<open>[]\<close>,
  \<open>entries()\<close> returns the empty sequence; every entry key that was in the pointer list
  has no entry, except the index key itself when it was in the list (the key
  \<open>pointers\<close>); and for every pointer whose entry held a chunk count, the parts that the
  count names are gone, provided no pointer is a part key of a pointer.
\<close>

theorem clear_empties:
  assumes pk: "pointerKey s = name s @ ''/pointers''"
    and gp: "getPointers s = Inr (JArr (map JStr ps), s1)"
    and ends: "\<forall>p \<in> set ps. loop_ends (world s p)"
  shows "\<exists>s'. clear s = Inr s' \<and>
     cachedPointers s' = Some (JArr []) \<and>
     world s' (pointerKey s') = Some ''[]'' \<and>
     entries s' = Inr ([], s') \<and>
     (\<forall>p \<in> set ps. p \<noteq> pointerKey s \<longrightarrow> world s' p = None) \<and>
     ((\<forall>q \<in> set ps. \<forall>j. partKey q j \<notin> set ps) \<longrightarrow>
        (\<forall>p \<in> set ps. isDigits (or_empty (world s p)) \<longrightarrow>
           (\<forall>i < parseInt (or_empty (world s p)). world s' (partKey p i) = None)))"
proof -
  let ?s' = "setPointers (JArr []) (s1\<lparr>world := fold erased ps (world s)\<rparr>)"
  note f = getPointers_fields[OF gp]
  have c: "clear s = Inr ?s'" by (rule clear_eq[OF gp ends])
  have pt: "\<And>p i. partKey p i \<noteq> pointerKey s" using pk by (simp add: partKey_neq_pointers)
  have 1: "cachedPointers ?s' = Some (JArr [])" by (simp add: setPointers_def to_cache_array)
  have 2: "world ?s' (pointerKey ?s') = Some ''[]''" by (simp add: setPointers_def)
  have 3: "entries ?s' = Inr ([], ?s')" by (simp add: entries_cached[OF 1])
  have 4: "\<forall>p \<in> set ps. p \<noteq> pointerKey s \<longrightarrow> world ?s' p = None"
    by (simp add: setPointers_def f fold_erased_base)
  have 5: "world ?s' (partKey p i) = None"
    if "\<forall>q \<in> set ps. \<forall>j. partKey q j \<notin> set ps" "p \<in> set ps"
      "isDigits (or_empty (world s p))" "i < parseInt (or_empty (world s p))" for p i
    using that pt[of p i] by (simp add: setPointers_def f fold_erased_parts)
  have parts: "(\<forall>q \<in> set ps. \<forall>j. partKey q j \<notin> set ps) \<longrightarrow>
        (\<forall>p \<in> set ps. isDigits (or_empty (world s p)) \<longrightarrow>
           (\<forall>i < parseInt (or_empty (world s p)). world ?s' (partKey p i) = None))"
    using 5 by blast
  show ?thesis
    by (rule exI[of _ ?s'], intro conjI; fact)
qed

theorem clear_empties_witness:
  "set_value ''k'' big_value fresh_db = Inr (False, db_big) \<and>
   set_value ''m'' (JStr ''x'') db_big = Inr (False, db_mixed) \<and>
   world db_mixed ''db/k'' = Some ''2'' \<and>
   world db_mixed (partKey ''db/k'' 0) \<noteq> None \<and>
   world db_mixed (partKey ''db/k'' 1) \<noteq> None \<and>
   world db_mixed ''db/m'' \<noteq> None \<and>
   (\<exists>s'. clear db_mixed = Inr s' \<and>
      cachedPointers s' = Some (JArr []) \<and>
      world s' ''db/pointers'' = Some ''[]'' \<and>
      entries s' = Inr ([], s') \<and>
      world s' ''db/k'' = None \<and>
      world s' ''db/m'' = None \<and>
      world s' (partKey ''db/k'' 0) = None \<and>
      world s' (partKey ''db/k'' 1) = None)"
proof -
  have pk: "pointerKey db_mixed = name db_mixed @ ''/pointers''"
    and nm: "name db_mixed = ''db''" and pkv: "pointerKey db_mixed = ''db/pointers''"
    by (simp_all add: db_mixed_def)
  have ends: "\<forall>p \<in> set [''db/k'', ''db/m'']. loop_ends (world db_mixed p)"
    by (simp add: db_mixed_loop)
  from clear_empties[OF pk db_mixed_pointers ends]
  obtain s' where c: "clear db_mixed = Inr s'"
    and 1: "cachedPointers s' = Some (JArr [])"
    and 2: "world s' (pointerKey s') = Some ''[]''"
    and 3: "entries s' = Inr ([], s')"
    and 4: "\<forall>p \<in> set [''db/k'', ''db/m'']. p \<noteq> pointerKey db_mixed \<longrightarrow> world s' p = None"
    and 5: "(\<forall>q \<in> set [''db/k'', ''db/m'']. \<forall>j. partKey q j \<notin> set [''db/k'', ''db/m'']) \<longrightarrow>
        (\<forall>p \<in> set [''db/k'', ''db/m'']. isDigits (or_empty (world db_mixed p)) \<longrightarrow>
           (\<forall>i < parseInt (or_empty (world db_mixed p)). world s' (partKey p i) = None))"
    by - (elim exE conjE, rule that; assumption)
  have "pointerKey s' = ''db/pointers''"
    using c clear_eq[OF db_mixed_pointers ends] by (auto simp: setPointers_def pkv)
  with 2 have i2: "world s' ''db/pointers'' = Some ''[]''" by simp
  from 4 have i4: "world s' ''db/k'' = None" "world s' ''db/m'' = None"
    by (simp_all add: pkv)
  have "\<forall>q \<in> set [''db/k'', ''db/m'']. \<forall>j. partKey q j \<notin> set [''db/k'', ''db/m'']"
    by (simp add: partKey_def)
  with 5 have "\<forall>i < parseInt (or_empty (world db_mixed ''db/k'')). world s' (partKey ''db/k'' i) = None"
    by (simp add: db_mixed_marker or_empty_def digits_2)
  then have i5: "world s' (partKey ''db/k'' 0) = None" "world s' (partKey ''db/k'' 1) = None"
    by (simp_all add: db_mixed_marker or_empty_def digits_2)
  have b: "world db_mixed (partKey ''db/k'' 0) \<noteq> None" "world db_mixed (partKey ''db/k'' 1) \<noteq> None"
    using db_mixed_part[of 0] db_mixed_part[of 1] by simp_all
  have m: "world db_mixed ''db/m'' \<noteq> None" by (simp add: db_mixed_direct)
  have "\<exists>s'. clear db_mixed = Inr s' \<and>
      cachedPointers s' = Some (JArr []) \<and>
      world s' ''db/pointers'' = Some ''[]'' \<and>
      entries s' = Inr ([], s') \<and>
      world s' ''db/k'' = None \<and>
      world s' ''db/m'' = None \<and>
      world s' (partKey ''db/k'' 0) = None \<and>
      world s' (partKey ''db/k'' 1) = None"
    by (rule exI[of _ s'], intro conjI; fact)
  with db_big_built db_mixed_built db_mixed_marker b m show ?thesis by (intro conjI)
qed

section \<open>A pointer that is a part key of another pointer\<close>

lemma huge_text_length: "length huge_text = 90002"
  by (simp add: huge_text_def huge_value_def JSON_quote_def length_concat quote_char_def comp_def)

lemma huge_text_large: "maxChunkSize < length huge_text"
  by (simp add: huge_text_length maxChunkSize_def)

lemma huge_text_chunks: "chunkCount_of huge_text = 4"
  by (simp add: chunkCount_of_def huge_text_length maxChunkSize_def)

lemma db_b_built: "set_value ''b'' huge_value fresh_db = Inr (False, db_b)"
proof -
  have "name fresh_db @ ''/'' @ ''b'' \<notin> set []" by simp
  from set_value_new[OF fresh_db_pointers this, of huge_value]
  show ?thesis
    by (simp add: fresh_db_def db_b_def setPointers_def huge_text_def to_cache_def)
qed

lemma db_b_part3_built: "set_value ''b_part3'' big_value db_b = Inr (False, db_b_part3)"
proof -
  have gp: "getPointers db_b = Inr (JArr (map JStr [''db/b'']), db_b)"
    by (simp add: getPointers_def cached_def db_b_def)
  have "name db_b @ ''/'' @ ''b_part3'' \<notin> set [''db/b'']" by (simp add: db_b_def)
  from set_value_new[OF gp this, of big_value]
  show ?thesis
    by (simp add: db_b_def db_b_part3_def setPointers_def big_text_def to_cache_def)
qed

lemma toString_no_underscore: "CHR ''_'' \<notin> set (toString n)"
  using toString_digits[of n] by (auto simp: list_all_iff is_digit_def)

lemma partKey_nested_neq: "partKey (partKey k j) i \<noteq> partKey k i'"
proof
  assume "partKey (partKey k j) i = partKey k i'"
  then have "toString j @ ''_part'' @ toString i = toString i'"
    by (simp add: partKey_def)
  then have "CHR ''_'' \<in> set (toString i')"
    by (metis in_set_conv_decomp append_Cons)
  with toString_no_underscore show False by blast
qed

lemma b_part3_key: "partKey ''db/b'' 3 = ''db/b_part3''"
  by (simp add: partKey_def toString_numeral digit_char_def)

lemma digits_4: "isDigits ''4''" "parseInt ''4'' = 4"
  by (simp_all add: isDigits_def is_digit_def parseInt_def digits_value_def digit_val_def
      to_double_exact)

lemma db_b_part3_count_b: "world db_b_part3 ''db/b'' = Some ''4''"
proof -
  have "world db_b ''db/b'' = Some ''4''"
    using write_entry_large_base[OF huge_text_large, of "''db/b''" "[''db/pointers'' \<mapsto> ''[]'']"]
    by (simp add: db_b_def huge_text_chunks toString_numeral digit_char_def)
  moreover have "write_entry ''db/b_part3'' big_text (world db_b) ''db/b'' = world db_b ''db/b''"
    by (rule write_entry_other) (simp_all add: partKey_def)
  ultimately show ?thesis by (simp add: db_b_part3_def)
qed

lemma db_b_part3_count: "world db_b_part3 ''db/b_part3'' = Some ''2''"
  using write_entry_large_base[OF big_text_large, of "''db/b_part3''" "world db_b"]
  by (simp add: db_b_part3_def big_text_chunks toString_numeral digit_char_def)

lemma db_b_part3_part0:
  "world db_b_part3 (partKey ''db/b_part3'' 0) = Some (take maxChunkSize big_text)"
  using write_entry_large_part[OF big_text_large, of 0 "''db/b_part3''" "world db_b"]
    partKey_neq_pointers[of "''db/b_part3''" 0 "''db''"]
  by (simp add: db_b_part3_def big_text_chunks)

lemma clear_db_b_part3:
  "\<exists>s'. clear db_b_part3 = Inr s' \<and>
        world s' (partKey ''db/b_part3'' 0) = Some (take maxChunkSize big_text)"
proof -
  let ?w = "world db_b_part3"
  let ?x = "partKey ''db/b_part3'' 0"
  have gp: "getPointers db_b_part3 = Inr (JArr (map JStr [''db/b'', ''db/b_part3'']), db_b_part3)"
    by (simp add: getPointers_def cached_def db_b_part3_def)
  have ends: "\<forall>p \<in> set [''db/b'', ''db/b_part3'']. loop_ends (?w p)"
    by (simp add: db_b_part3_count_b db_b_part3_count loop_ends_def or_empty_def digits_4 digits_2)
  have x_b: "?x \<noteq> ''db/b''" by (simp add: partKey_def)
  have x_parts: "\<And>i. ?x \<noteq> partKey ''db/b'' i"
    using partKey_nested_neq[of "''db/b''" 3 0] by (simp add: b_part3_key)
  have e1x: "erased ''db/b'' ?w ?x = ?w ?x"
    using x_b x_parts by (rule erased_other)
  have "erased ''db/b'' ?w (partKey ''db/b'' 3) = None"
    by (rule erased_part) (simp_all add: db_b_part3_count_b or_empty_def digits_4)
  then have e1k: "erased ''db/b'' ?w ''db/b_part3'' = None"
    by (simp add: b_part3_key)
  have e2x: "erased ''db/b_part3'' (erased ''db/b'' ?w) ?x = ?w ?x"
    using e1k e1x partKey_neq_base[of "''db/b_part3''" 0]
    by (simp add: erased_def or_empty_def isDigits_def Let_def)
  have "world (setPointers (JArr []) (db_b_part3\<lparr>world := fold erased [''db/b'', ''db/b_part3''] ?w\<rparr>)) ?x
        = ?w ?x"
    using e2x partKey_neq_pointers[of "''db/b_part3''" 0 "''db''"]
    by (simp add: setPointers_def db_b_part3_def)
  with clear_eq[OF gp ends] db_b_part3_part0 show ?thesis by simp
qed

text \<open>
  C5 as the specification states it, with every entry the pointer list named and its
  parts gone after \<open>clear\<close>, fails in four ways. (1) The key \<open>pointers\<close>: its entry key is
  the index key, which holds \<open>[]\<close> after \<open>clear\<close>. (2) In \<open>db_b_part3\<close> the key \<open>b_part3\<close>
  is stored as two chunks. \<open>clear\<close> reaches \<open>db/b\<close> first and removes its four parts, the
  entry \<open>db/b_part3\<close> among them; when it reaches \<open>db/b_part3\<close> there is no chunk count to
  read any more, and the parts of \<open>b_part3\<close> stay. (3) After \<open>set("k", 1e20)\<close> the entry
  of \<open>k\<close> reads as a chunk count above \<open>2 ^ 53\<close>, and \<open>clear\<close> never returns. (4) After
  \<open>set("pointers", 5)\<close> twice the index key holds the text \<open>5\<close>; on a new instance of
  the same name the pointer list loads as the number 5, and \<open>clear\<close> throws a
  \<open>TypeError\<close>.
\<close>

theorem clear_leaves_entries:
  "pointers_of db_pointers_key = Inr (Some (JArr [JStr ''db/pointers''])) \<and>
   lookup (then_clear db_pointers_key) ''db/pointers'' = Inr (Some ''[]'') \<and>
   then_set (then_set (constructor ''db'' Map.empty) ''b'' huge_value) ''b_part3'' big_value
     = Inr db_b_part3 \<and>
   cachedPointers db_b_part3 = Some (JArr [JStr ''db/b'', JStr ''db/b_part3'']) \<and>
   world db_b_part3 ''db/b_part3'' = Some ''2'' \<and>
   world db_b_part3 ''db/b_part3_part0'' = Some (take maxChunkSize big_text) \<and>
   lookup (then_clear (Inr db_b_part3)) ''db/b_part3_part0'' = Inr (Some (take maxChunkSize big_text)) \<and>
   then_set (constructor ''db'' Map.empty) ''k'' (JNum 100000000000000000000) = Inr db_k_1e20 \<and>
   pointers_of (Inr db_k_1e20) = Inr (Some (JArr [JStr ''db/k''])) \<and>
   then_clear (Inr db_k_1e20) = Inl NeverReturns \<and>
   lookup db_pointers_5 ''db/pointers'' = Inr (Some ''5'') \<and>
   then_clear (reopen db_pointers_5) = Inl TypeError"
proof -
  have 1: "pointers_of db_pointers_key = Inr (Some (JArr [JStr ''db/pointers'']))"
    and 2: "lookup (then_clear db_pointers_key) ''db/pointers'' = Inr (Some ''[]'')"
    unfolding db_pointers_key_def session_defs by (simp_all add: run_defs)
  have 3: "then_set (then_set (constructor ''db'' Map.empty) ''b'' huge_value) ''b_part3'' big_value
     = Inr db_b_part3"
    by (simp add: then_set_def fresh_db_constructed db_b_built db_b_part3_built)
  have 4: "cachedPointers db_b_part3 = Some (JArr [JStr ''db/b'', JStr ''db/b_part3''])"
    by (simp add: db_b_part3_def)
  have k: "partKey ''db/b_part3'' 0 = ''db/b_part3_part0''"
    by (simp add: partKey_def toString_0)
  have 5: "world db_b_part3 ''db/b_part3_part0'' = Some (take maxChunkSize big_text)"
    using db_b_part3_part0 by (simp only: k)
  have 6: "lookup (then_clear (Inr db_b_part3)) ''db/b_part3_part0'' =
      Inr (Some (take maxChunkSize big_text))"
    using clear_db_b_part3 by (auto simp: then_clear_def lookup_def k)
  have 7: "pointers_of (Inr db_k_1e20) = Inr (Some (JArr [JStr ''db/k'']))"
    by (simp add: pointers_of_def db_k_1e20_def)
  have 8: "then_clear (Inr db_k_1e20) = Inl NeverReturns"
    by (simp add: then_clear_def db_k_1e20_clear)
  have 9: "lookup db_pointers_5 ''db/pointers'' = Inr (Some ''5'')"
    and 10: "then_clear (reopen db_pointers_5) = Inl TypeError"
    unfolding db_pointers_5_def session_defs by (simp_all add: run_defs)
  from 1 2 3 4 db_b_part3_count 5 6 db_k_1e20_built 7 8 9 10 show ?thesis by (intro conjI)
qed

section \<open>The pointer list has no duplicates\<close>

text \<open>
  C6 asks that the pointer list never holds an entry key twice. On a new database \<open>db\<close>,
  after \<open>set("pointers", 0)\<close> the cached and the persisted list are both
  \<open>["db/pointers"]\<close>, without a duplicate. The call \<open>set("pointers", ["x","x"])\<close> then
  deletes the pointer, writes the text \<open>["x","x"]\<close> to the entry key, which is the index
  key, and does not put the pointer back, because the test at line 93 reads the array
  as it was before \<open>delete\<close> (see \<open>rc1_twice\<close>): \<open>_setPointers\<close> is not called, and the
  text of the value stays at the index key. A new instance loads the pointer list
  \<open>["x","x"]\<close>, which holds \<open>x\<close> twice.
\<close>

theorem set_pointers_key_duplicates:
  "map_sum id duplicate_free (then_set (constructor ''db'' Map.empty) ''pointers'' (JNum 0)) = Inr True \<and>
   pointers_of (then_set (constructor ''db'' Map.empty) ''pointers'' (JNum 0)) =
     Inr (Some (JArr [JStr ''db/pointers''])) \<and>
   map_sum id persisted db_pointers_twice = Inr (Inr (JArr [JStr ''x'', JStr ''x''])) \<and>
   map_sum id duplicate_free db_pointers_twice = Inr False"
  unfolding db_pointers_twice_def session_defs
  by (simp add: run_defs persisted_def duplicate_free_def distinct_array_def)

section \<open>Overwriting a chunked value\<close>

text \<open>
  With the entry key in the pointer list, an overwrite by a text of one chunk removes
  the parts that the old chunk count names.
\<close>

lemma overwrite_removes_counted_parts:
  assumes pk: "pointerKey s = name s @ ''/pointers''"
    and gp: "getPointers s = Inr (JArr (map JStr ps), s1)"
    and present: "name s @ ''/'' @ key \<in> set ps"
    and small: "length (JSON_stringify v) \<le> maxChunkSize"
    and digits: "isDigits (or_empty (world s (name s @ ''/'' @ key)))"
    and i: "i < parseInt (or_empty (world s (name s @ ''/'' @ key)))"
    and ends: "parseInt (or_empty (world s (name s @ ''/'' @ key))) \<le> 2 ^ 53"
  shows "\<exists>s'. set_value key v s = Inr (True, s') \<and>
           world s' (name s @ ''/'' @ key) = Some (JSON_stringify v) \<and>
           world s' (partKey (name s @ ''/'' @ key) i) = None"
proof -
  let ?dk = "name s @ ''/'' @ key"
  have e: "loop_ends (world s ?dk)" using ends by (simp add: loop_ends_def)
  have "partKey ?dk i \<noteq> pointerKey s" using pk by (simp add: partKey_neq_pointers)
  then show ?thesis
    using set_value_overwrite[OF gp present e, of v] partKey_neq_base[of ?dk i]
      erased_part[of "world s" ?dk i] digits i
    by (simp add: write_entry_small[OF small])
qed

lemma db_big_twice_built: "set_value ''k'' big_value db_big = Inr (True, db_big_twice)"
proof -
  have p: "name db_big @ ''/'' @ ''k'' \<in> set [''db/k'']" by (simp add: db_big_def)
  have e: "loop_ends (world db_big (name db_big @ ''/'' @ ''k''))"
    using db_big_marker loop_ends_2 by (simp add: db_big_def)
  from set_value_overwrite[OF db_big_pointers p e, of big_value]
  show ?thesis
    by (simp add: db_big_def db_big_twice_def big_text_def)
qed

lemma db_big_twice_small_built:
  "set_value ''k'' (JStr ''x'') db_big_twice = Inr (False, db_big_twice_small)"
proof -
  have gp: "getPointers db_big_twice = Inr (JArr (map JStr []), db_big_twice)"
    by (simp add: getPointers_def cached_def db_big_twice_def)
  have "name db_big_twice @ ''/'' @ ''k'' \<notin> set []" by simp
  from set_value_new[OF gp this, of "JStr ''x''"]
  show ?thesis
    by (simp add: db_big_twice_def db_big_twice_small_def setPointers_def small_text_def
        to_cache_def)
qed

lemma db_big_twice_part:
  "i < 2 \<Longrightarrow> world db_big_twice (partKey ''db/k'' i) =
     Some (take maxChunkSize (drop (i * maxChunkSize) big_text))"
  using write_entry_large_part[OF big_text_large, of i "''db/k''"]
  by (simp add: db_big_twice_def big_text_chunks)

lemma db_big_twice_small_part:
  "i < 2 \<Longrightarrow> world db_big_twice_small (partKey ''db/k'' i) =
     Some (take maxChunkSize (drop (i * maxChunkSize) big_text))"
  using db_big_twice_part[of i] partKey_neq_pointers[of "''db/k''" i "''db''"]
    partKey_neq_base[of "''db/k''" i]
  by (simp add: db_big_twice_small_def write_small_text)

lemma db_shrunk_state: "db_shrunk = Inr db_big_twice_small"
  by (simp add: db_shrunk_def then_set_def fresh_db_constructed db_big_built db_big_twice_built
      db_big_twice_small_built)

text \<open>
  C3 asks that overwriting a chunked value with a small one leaves no part entry. The
  comment at line 75 of \<open>set\<close> says the same ("Remove existing chunks if the key already
  exists"). The removal is tied to the pointer list, and an overwrite drops the pointer
  (see \<open>rc1_twice\<close>): on a new database \<open>db\<close>, after \<open>set("k", big_value)\<close> twice the value
  of \<open>k\<close> is stored as two chunks and the pointer list is empty; \<open>set("k", "x")\<close> then
  returns \<open>false\<close>, erases nothing, and both parts of the old value stay. The run with
  the pointer arrays as objects (\<open>o_db_shrunk\<close>) ends in the same state.
\<close>

theorem overwrite_leaves_parts:
  "map_sum id view o_db_shrunk = db_shrunk \<and>
   then_set (constructor ''db'' Map.empty) ''k'' big_value = Inr db_big \<and>
   set_value ''k'' big_value db_big = Inr (True, db_big_twice) \<and>
   world db_big_twice ''db/k'' = Some ''2'' \<and>
   cachedPointers db_big_twice = Some (JArr []) \<and>
   set_value ''k'' (JStr ''x'') db_big_twice = Inr (False, db_big_twice_small) \<and>
   db_shrunk = Inr db_big_twice_small \<and>
   lookup db_shrunk ''db/k'' = Inr (Some small_text) \<and>
   lookup db_shrunk ''db/k_part0'' = Inr (Some (take maxChunkSize big_text)) \<and>
   lookup db_shrunk ''db/k_part1'' = Inr (Some (take maxChunkSize (drop maxChunkSize big_text)))"
proof -
  have a: "then_set (constructor ''db'' Map.empty) ''k'' big_value = Inr db_big"
    by (simp add: then_set_def fresh_db_constructed db_big_built)
  have m: "world db_big_twice ''db/k'' = Some ''2''"
    using write_entry_large_base[OF big_text_large, of "''db/k''"]
    by (simp add: db_big_twice_def big_text_chunks toString_numeral digit_char_def)
  have c: "cachedPointers db_big_twice = Some (JArr [])" by (simp add: db_big_twice_def)
  have b: "lookup db_shrunk ''db/k'' = Inr (Some small_text)"
    by (simp add: db_shrunk_state lookup_def db_big_twice_small_def write_small_text)
  have k0: "partKey ''db/k'' 0 = ''db/k_part0''" and k1: "partKey ''db/k'' (Suc 0) = ''db/k_part1''"
    by (simp_all add: partKey_def toString_0 toString_1)
  have p0: "lookup db_shrunk ''db/k_part0'' = Inr (Some (take maxChunkSize big_text))"
    using db_big_twice_small_part[of 0] by (simp add: db_shrunk_state lookup_def k0)
  have p1: "lookup db_shrunk ''db/k_part1'' =
      Inr (Some (take maxChunkSize (drop maxChunkSize big_text)))"
    using db_big_twice_small_part[of 1] by (simp add: db_shrunk_state lookup_def k1)
  from db_shrunk_objects a db_big_twice_built m c db_big_twice_small_built db_shrunk_state b p0 p1
  show ?thesis by (intro conjI)
qed

end
